theory Spec2Isabelle
  imports Complex_Main "HOL-Library.Char_ord" "HOL-Library.List_Lexorder" "HOL-Library.Multiset"
begin

section \<open>JavaScript strings\<close>

text \<open>
  A JavaScript string is a sequence of UTF-16 code units. The model keeps the code units
  below 256 (ASCII and Latin-1), one \<open>char\<close> each; that covers every literal the
  source compares against. Numbers that the source compares (confidences, similarity
  ratios, thresholds) are modelled by their exact rational values: each ratio is a quotient
  of two small set sizes, and the double nearest such a quotient is above (below) the
  double nearest \<open>0.7\<close> or \<open>0.8\<close> exactly when the quotient is above (below) the
  decimal.
\<close>

definition toLowerChar :: "char \<Rightarrow> char" where
  "toLowerChar c =
     (let n = (of_char c :: nat)
      in if (65 \<le> n \<and> n \<le> 90) \<or> (192 \<le> n \<and> n \<le> 222 \<and> n \<noteq> 215)
         then char_of (n + 32) else c)"

definition toLowerCase :: "string \<Rightarrow> string" where
  "toLowerCase s = map toLowerChar s"

text \<open>The regular-expression classes \<open>\w\<close> and \<open>\s\<close>.\<close>

definition is_word_char :: "char \<Rightarrow> bool" where
  "is_word_char c =
     (let n = (of_char c :: nat)
      in (48 \<le> n \<and> n \<le> 57) \<or> (65 \<le> n \<and> n \<le> 90) \<or> n = 95 \<or> (97 \<le> n \<and> n \<le> 122))"

definition is_space :: "char \<Rightarrow> bool" where
  "is_space c = (let n = (of_char c :: nat) in (9 \<le> n \<and> n \<le> 13) \<or> n = 32 \<or> n = 160)"

text \<open>\<open>s.includes(k)\<close>: \<open>k\<close> occurs in \<open>s\<close> as a contiguous substring.\<close>

fun includes_js :: "string \<Rightarrow> string \<Rightarrow> bool" where
  "includes_js [] k = (k = [])"
| "includes_js (c # s) k = (take (length k) (c # s) = k \<or> includes_js s k)"

text \<open>
  \<open>s.split(' ')\<close>: the pieces between single spaces; two adjacent spaces give an empty
  piece, and the empty string gives one empty piece.
\<close>

fun split_sp :: "string \<Rightarrow> string list" where
  "split_sp [] = [[]]"
| "split_sp (c # s) =
     (if c = CHR '' '' then [] # split_sp s
      else (case split_sp s of [] \<Rightarrow> [[c]] | w # ws \<Rightarrow> (c # w) # ws))"

text \<open>
  \<open>s.split(/\s+/)\<close>: the pieces between maximal runs of white space; leading or
  trailing white space gives an empty first or last piece.
\<close>

fun split_ws_aux :: "bool \<Rightarrow> string \<Rightarrow> string list" where
  "split_ws_aux in_gap [] = [[]]"
| "split_ws_aux in_gap (c # s) =
     (if is_space c then (if in_gap then split_ws_aux True s else [] # split_ws_aux True s)
      else (case split_ws_aux False s of [] \<Rightarrow> [[c]] | w # ws \<Rightarrow> (c # w) # ws))"

definition split_ws :: "string \<Rightarrow> string list" where
  "split_ws s = split_ws_aux False s"

text \<open>\<open>xs.join(sep)\<close>.\<close>

fun join :: "string \<Rightarrow> string list \<Rightarrow> string" where
  "join sep [] = []"
| "join sep [w] = w"
| "join sep (w # v # ws) = w @ sep @ join sep (v # ws)"

text \<open>
  The quotient \<open>i / u\<close> of two sizes as JavaScript computes it: \<open>0 / 0\<close> is
  \<open>NaN\<close>, a positive size over \<open>0\<close> is \<open>Infinity\<close>. \<open>NaN > t\<close> is false and
  \<open>Infinity > t\<close> is true for every finite \<open>t\<close>.
\<close>

datatype js_num = Finite rat | PosInfinity | NaN

definition js_div :: "nat \<Rightarrow> nat \<Rightarrow> js_num" where
  "js_div i u = (if u = 0 then (if i = 0 then NaN else PosInfinity) else Finite (of_nat i / of_nat u))"

fun js_gt :: "js_num \<Rightarrow> rat \<Rightarrow> bool" where
  "js_gt (Finite r) t = (r > t)"
| "js_gt PosInfinity t = True"
| "js_gt NaN t = False"

section \<open>Data model\<close>

type_synonym userId = int

record message =
  id_msg :: string
  from_msg :: string
  fromName :: string
  chatName :: string
  body :: string
  timestamp :: int
  isGroup :: bool
  fromMe :: bool
  isGroupedMessage :: bool
  messageCount :: "nat option"

record details =
  title :: string
  content :: string
  datetime :: "int option"
  priority :: string
  category :: string
  urgency_reason :: "string option"
  suggested_actions :: "string list"
  context_d :: "string option"

text \<open>
  A candidate action as the classifier or the fallback returns it. \<open>originalMessage\<close>
  is \<open>None\<close> when the object has no such property.
\<close>

record action =
  type :: string
  description :: string
  details :: details
  confidence :: rat
  originalMessage :: "message option"

section \<open>aiProcessor.js\<close>

subsection \<open>Selection of the best candidate\<close>

text \<open>
  \<open>xs.reduce((best, current) => current.confidence > best.confidence ? current : best)\<close>
  without an initial value: the fold starts from the first element. On an empty array
  \<open>reduce\<close> throws, which is \<open>None\<close> here; every call is guarded by a length test.
\<close>

definition better :: "action \<Rightarrow> action \<Rightarrow> action" where
  "better best current = (if confidence current > confidence best then current else best)"

fun reduceBest :: "action list \<Rightarrow> action option" where
  "reduceBest [] = None"
| "reduceBest (a # as) = Some (foldl better a as)"

definition highConfidenceActions :: "action list \<Rightarrow> action list" where
  "highConfidenceActions actions = filter (\<lambda>a. confidence a > 7 / 10) actions"

definition selectBest :: "action list \<Rightarrow> action list" where
  "selectBest actions =
     (let hc = highConfidenceActions actions
      in case reduceBest hc of None \<Rightarrow> [] | Some bestAction \<Rightarrow> [bestAction])"

subsection \<open>fallbackProcessing\<close>

definition mentions :: "string \<Rightarrow> string list \<Rightarrow> bool" where
  "mentions msg keywords = list_ex (\<lambda>keyword. includes_js msg keyword) keywords"

definition timeKeywords :: "string list" where
  "timeKeywords = [''remind me'', ''don'' @ [CHR 0x27] @ ''t forget'', ''remember to'', ''tomorrow'',
     ''today'', ''later'', ''next week'', ''esok'', ''monday'', ''tuesday'', ''wednesday'', ''thursday'',
     ''friday'', ''saturday'', ''sunday'', ''am'', ''pm'', ''o'' @ [CHR 0x27] @ ''clock'', ''morning'',
     ''afternoon'', ''evening'', ''night'']"

definition eventKeywords :: "string list" where
  "eventKeywords = [''meeting'', ''appointment'', ''schedule'', ''course'', ''training'', ''session'',
     ''conference'', ''call'', ''webinar'', ''workshop'', ''seminar'', ''presentation'', ''demo'',
     ''interview'', ''event'']"

definition taskKeywords :: "string list" where
  "taskKeywords = [''need to'', ''have to'', ''should'', ''must'', ''todo'', ''task'', ''complete'',
     ''finish'', ''do this'', ''work on'', ''handle'', ''deal with'', ''take care'']"

definition noteKeywords :: "string list" where
  "noteKeywords = [''note this'', ''save this'', ''write down'', ''remember that'', ''important'',
     ''information'', ''details'', ''reference'', ''document'', ''record'']"

definition issueKeywords :: "string list" where
  "issueKeywords = [''problem'', ''issue'', ''not working'', ''broken'', ''error'', ''help'', ''unstable'',
     ''couldn'' @ [CHR 0x27] @ ''t'', ''failed'', ''bug'', ''trouble'', ''wrong'', ''stuck'', ''crash'',
     ''freeze'', ''slow'', ''can'' @ [CHR 0x27] @ ''t'', ''won'' @ [CHR 0x27] @ ''t'',
     ''doesn'' @ [CHR 0x27] @ ''t'']"

definition businessKeywords :: "string list" where
  "businessKeywords = [''customer'', ''client'', ''business'', ''project'', ''work'', ''deadline'',
     ''proposal'', ''contract'', ''sale'', ''revenue'', ''profit'', ''marketing'', ''campaign'', ''launch'']"

definition questionKeywords :: "string list" where
  "questionKeywords = [''?'', ''how'', ''what'', ''why'', ''when'', ''where'', ''who'', ''which'',
     ''can you'', ''could you'', ''would you'', ''should i'', ''is it'', ''are you'', ''do you'']"

definition learningKeywords :: "string list" where
  "learningKeywords = [''learn'', ''study'', ''course'', ''tutorial'', ''training'', ''skill'',
     ''knowledge'', ''research'', ''understand'', ''teach'', ''education'', ''book'', ''read'', ''practice'']"

definition financeKeywords :: "string list" where
  "financeKeywords = [''money'', ''pay'', ''payment'', ''invoice'', ''bill'', ''cost'', ''price'',
     ''budget'', ''expense'', ''income'', ''profit'', ''loss'', ''investment'', ''bank'', ''account'']"

definition healthKeywords :: "string list" where
  "healthKeywords = [''doctor'', ''appointment'', ''medicine'', ''health'', ''sick'', ''pain'',
     ''exercise'', ''gym'', ''diet'', ''nutrition'', ''wellness'', ''therapy'', ''checkup'']"

definition shoppingKeywords :: "string list" where
  "shoppingKeywords = [''buy'', ''purchase'', ''shop'', ''order'', ''delivery'', ''shipping'', ''product'',
     ''item'', ''store'', ''market'', ''sale'', ''discount'', ''cart'']"

definition travelKeywords :: "string list" where
  "travelKeywords = [''travel'', ''trip'', ''flight'', ''hotel'', ''booking'', ''reservation'', ''ticket'',
     ''vacation'', ''holiday'', ''transport'', ''uber'', ''taxi'', ''airport'']"

definition creativeKeywords :: "string list" where
  "creativeKeywords = [''create'', ''design'', ''write'', ''content'', ''post'', ''blog'', ''video'',
     ''photo'', ''image'', ''graphic'', ''logo'', ''brand'', ''creative'', ''idea'', ''brainstorm'']"

definition adminKeywords :: "string list" where
  "adminKeywords = [''form'', ''application'', ''register'', ''signup'', ''paperwork'', ''document'',
     ''certificate'', ''license'', ''renewal'', ''submission'', ''filing'', ''process'']"

text \<open>
  One candidate of the fallback: the literal object the source pushes. \<open>dt\<close> is the
  \<open>datetime\<close> property (only the reminder has one), \<open>ur\<close> the \<open>urgency_reason\<close>,
  \<open>cx\<close> the \<open>context\<close>.
\<close>

definition candidate ::
  "string \<Rightarrow> string \<Rightarrow> string \<Rightarrow> string \<Rightarrow> int option \<Rightarrow> string \<Rightarrow> string
    \<Rightarrow> string option \<Rightarrow> string list \<Rightarrow> string option \<Rightarrow> rat \<Rightarrow> action" where
  "candidate ty descr ti co dt pr ca ur sa cx conf =
     \<lparr> type = ty, description = descr,
       details = \<lparr> title = ti, content = co, datetime = dt, priority = pr, category = ca,
                   urgency_reason = ur, suggested_actions = sa, context_d = cx \<rparr>,
       confidence = conf, originalMessage = None \<rparr>"

definition reminderCandidate :: "int \<Rightarrow> message \<Rightarrow> action" where
  "reminderCandidate now m =
     candidate ''reminder'' ''Time-based reminder or scheduling needed'' ''Reminder/Schedule'' (body m)
       (Some (now + 24 * 60 * 60 * 1000)) ''medium'' ''scheduling'' None
       [''Set reminder'', ''Add to calendar'', ''Create alert''] None (8 / 10)"

definition keywordCandidates :: "message \<Rightarrow> (string list \<times> action) list" where
  "keywordCandidates m =
   [(eventKeywords, candidate ''event'' ''Schedule event or meeting'' ''Event Planning'' (body m)
       None ''high'' ''calendar'' None [''Add to calendar'', ''Send invites'', ''Set reminder''] None (8 / 10)),
    (taskKeywords, candidate ''task'' ''Task or action item identified'' ''Task Assignment'' (body m)
       None ''medium'' ''productivity'' None [''Add to task list'', ''Set deadline'', ''Track progress'']
       None (75 / 100)),
    (noteKeywords, candidate ''note'' ''Information to save and organize'' ''Note Taking'' (body m)
       None ''low'' ''information'' None [''Save to notes'', ''Tag and organize'', ''Create reference'']
       None (8 / 10)),
    (issueKeywords, candidate ''issue'' ''Technical or system issue reported'' ''Issue Resolution'' (body m)
       None ''high'' ''support'' (Some ''System issues affect productivity'')
       [''Debug problem'', ''Find solution'', ''Contact support'', ''Document fix''] None (8 / 10)),
    (businessKeywords, candidate ''follow_up'' ''Business or client matter needs attention''
       ''Business Follow-up'' (body m) None ''medium'' ''business'' None
       [''Schedule follow-up'', ''Contact client'', ''Update project status'', ''Send proposal'']
       None (75 / 100)),
    (questionKeywords, candidate ''communication'' ''Question requires response'' ''Response Needed''
       (body m) None ''medium'' ''communication'' None
       [''Research answer'', ''Provide response'', ''Ask for clarification''] None (75 / 100)),
    (learningKeywords, candidate ''learning'' ''Learning or educational content'' ''Learning Opportunity''
       (body m) None ''medium'' ''education'' None
       [''Find resources'', ''Schedule learning time'', ''Create study plan''] None (7 / 10)),
    (financeKeywords, candidate ''finance'' ''Financial matter needs attention'' ''Financial Task''
       (body m) None ''high'' ''finance'' None
       [''Review finances'', ''Process payment'', ''Update budget'', ''Track expenses''] None (8 / 10)),
    (healthKeywords, candidate ''health'' ''Health-related task or reminder'' ''Health & Wellness''
       (body m) None ''high'' ''health'' None
       [''Schedule appointment'', ''Set health reminder'', ''Track wellness''] None (8 / 10)),
    (shoppingKeywords, candidate ''shopping'' ''Shopping or purchase task'' ''Shopping List'' (body m)
       None ''low'' ''shopping'' None [''Add to shopping list'', ''Compare prices'', ''Check availability'']
       None (7 / 10)),
    (travelKeywords, candidate ''travel'' ''Travel planning or logistics'' ''Travel Planning'' (body m)
       None ''medium'' ''travel'' None
       [''Book travel'', ''Plan itinerary'', ''Set reminders'', ''Check requirements''] None (8 / 10)),
    (creativeKeywords, candidate ''creative'' ''Creative or content creation task'' ''Creative Project''
       (body m) None ''medium'' ''creative'' None
       [''Start project'', ''Gather resources'', ''Create timeline'', ''Review requirements'']
       None (7 / 10)),
    (adminKeywords, candidate ''administrative'' ''Administrative task or paperwork'' ''Admin Task''
       (body m) None ''medium'' ''administrative'' None
       [''Complete forms'', ''Gather documents'', ''Set deadline'', ''Track progress''] None (75 / 100))]"

definition longNoteCandidate :: "message \<Rightarrow> action" where
  "longNoteCandidate m =
     candidate ''note'' ''Detailed message - likely contains important information''
       ''Information Capture'' (body m) None ''low'' ''general'' None
       [''Review content'', ''Extract key points'', ''Determine next steps'']
       (Some ''Long message flagged for review'') (6 / 10)"

text \<open>
  The array \<open>actions\<close> after the fifteen \<open>if\<close> statements: the reminder first, then
  the thirteen other categories in source order, then the long-message note when nothing
  else was pushed and the body is longer than 50.
\<close>

definition fallbackCandidates :: "int \<Rightarrow> message \<Rightarrow> action list" where
  "fallbackCandidates now m =
     (let msg = toLowerCase (body m);
          actions = (if mentions msg timeKeywords then [reminderCandidate now m] else [])
                    @ map snd (filter (\<lambda>(keywords, a). mentions msg keywords) (keywordCandidates m))
      in if length (body m) > 50 \<and> actions = [] then actions @ [longNoteCandidate m] else actions)"

definition fallbackProcessing :: "int \<Rightarrow> message \<Rightarrow> action list" where
  "fallbackProcessing now m =
     (case reduceBest (fallbackCandidates now m) of None \<Rightarrow> [] | Some bestAction \<Rightarrow> [bestAction])"

subsection \<open>processMessageWithHistory\<close>

text \<open>
  What the classification request came to. \<open>CallFailed\<close>: something threw in the outer
  \<open>try\<close> before the response was parsed (the request was rejected or timed out, the
  completion had no choices). \<open>Unparseable\<close>: something threw in the inner \<open>try\<close>
  (\<open>JSON.parse\<close> rejected the text, or the parsed value was not an array of objects).
  \<open>Parsed as\<close>: the response was a JSON array of candidate objects.
\<close>

datatype classifier_outcome = CallFailed | Unparseable | Parsed "action list"

definition processMessageWithHistory :: "int \<Rightarrow> classifier_outcome \<Rightarrow> message \<Rightarrow> action list" where
  "processMessageWithHistory now outcome messageData =
     (case outcome of
        Parsed actions \<Rightarrow> selectBest actions
      | Unparseable \<Rightarrow> []
      | CallFailed \<Rightarrow> fallbackProcessing now messageData)"

section \<open>messageGrouper.js\<close>

subsection \<open>Configuration\<close>

definition GROUP_DELAY_MS :: int where
  "GROUP_DELAY_MS = 15000"

definition MAX_GROUP_SIZE :: nat where
  "MAX_GROUP_SIZE = 5"

definition DUPLICATE_SIMILARITY_THRESHOLD :: rat where
  "DUPLICATE_SIMILARITY_THRESHOLD = 8 / 10"

definition GROUP_TOPIC_SIMILARITY_THRESHOLD :: rat where
  "GROUP_TOPIC_SIMILARITY_THRESHOLD = 7 / 10"

subsection \<open>processMessage and the flush timer\<close>

text \<open>
  \<open>messageBuffer\<close> is a map from the user to a map from the chat to the pending
  messages; the model keys one map by the pair. \<open>processingTimers\<close> maps the key of a
  buffer to its timer; the model stores the time (in milliseconds) at which the pending
  timer fires. \<open>clearTimeout\<close> removes the entry: a cancelled handle that the source
  leaves in the map is never looked at again except to cancel it once more.
\<close>

type_synonym chatId = string

record buffers =
  messageBuffer :: "userId \<times> chatId \<rightharpoonup> message list"
  processingTimers :: "userId \<times> chatId \<rightharpoonup> int"

definition emptyBuffers :: buffers where
  "emptyBuffers = \<lparr> messageBuffer = Map.empty, processingTimers = Map.empty \<rparr>"

definition chatIdOf :: "message \<Rightarrow> chatId" where
  "chatIdOf messageData = (if isGroup messageData then chatName messageData else from_msg messageData)"

text \<open>
  The synchronous head of \<open>processGroupedMessages\<close>: cancel and delete the timer, take
  the buffer and leave an empty one. The result is the batch handed to the grouping
  pipeline, \<open>None\<close> when the function returns early on an absent or empty buffer.
\<close>

definition flushBuffer :: "userId \<Rightarrow> chatId \<Rightarrow> buffers \<Rightarrow> buffers \<times> message list option" where
  "flushBuffer uid cid st =
     (let st1 = st\<lparr> processingTimers := (processingTimers st)((uid, cid) := None) \<rparr>
      in case messageBuffer st1 (uid, cid) of
           None \<Rightarrow> (st1, None)
         | Some chatBuffer \<Rightarrow>
             if chatBuffer = [] then (st1, None)
             else (st1\<lparr> messageBuffer := (messageBuffer st1)((uid, cid) \<mapsto> []) \<rparr>, Some chatBuffer))"

text \<open>
  \<open>processMessage\<close> at time \<open>now\<close>: push the message, cancel the pending timer, then
  either flush at once (the buffer is full) or start a new timer for the whole delay.
\<close>

definition processMessage ::
  "int \<Rightarrow> message \<Rightarrow> userId \<Rightarrow> buffers \<Rightarrow> buffers \<times> message list option" where
  "processMessage now messageData uid st =
     (let cid = chatIdOf messageData;
          chatBuffer = (case messageBuffer st (uid, cid) of None \<Rightarrow> [] | Some b \<Rightarrow> b) @ [messageData];
          st1 = st\<lparr> messageBuffer := (messageBuffer st)((uid, cid) \<mapsto> chatBuffer),
                     processingTimers := (processingTimers st)((uid, cid) := None) \<rparr>
      in if length chatBuffer \<ge> MAX_GROUP_SIZE then flushBuffer uid cid st1
         else (st1\<lparr> processingTimers := (processingTimers st1)((uid, cid) \<mapsto> now + GROUP_DELAY_MS) \<rparr>,
               None))"

text \<open>
  The first loop of \<open>cleanup\<close>, which \<open>sessionManager.js\<close> runs every hour, at
  time \<open>now\<close>: a buffer that holds a message, the first of which was sent more than an
  hour before \<open>now\<close>, is deleted. Its timer is left as it is, and will find no buffer.
  (The other loops of \<open>cleanup\<close> work on the conversation-history cache, the signature
  sets and the topic tracker.)
\<close>

definition cleanupThreshold :: int where
  "cleanupThreshold = 60 * 60 * 1000"

definition cleanup :: "int \<Rightarrow> buffers \<Rightarrow> buffers" where
  "cleanup now st =
     st\<lparr> messageBuffer :=
          (\<lambda>k. case messageBuffer st k of
                  None \<Rightarrow> None
                | Some messages \<Rightarrow>
                    (case messages of
                       [] \<Rightarrow> Some messages
                     | m # _ \<Rightarrow>
                         if now - timestamp m * 1000 > cleanupThreshold then None
                         else Some messages)) \<rparr>"

text \<open>
  One buffer over time. What happens to it is an arrival of a message or a sweep by
  \<open>cleanup\<close>, each at a time in milliseconds. A flush is recorded with the time at which
  it happens, the arrival times of the messages it hands over and the messages themselves;
  a drop (a sweep that deletes the pending messages) likewise. The arrival times of the
  buffered messages are kept beside the state of the source, for the statements only.
\<close>

datatype event = Arrive int message | Sweep int

record flush =
  flushedAt :: int
  arrived :: "int list"
  batch :: "message list"

record drop =
  droppedAt :: int
  lostArrivals :: "int list"
  lost :: "message list"

datatype outcome = Flushed flush | Dropped drop

text \<open>The timer callback, run when the clock reaches \<open>t\<close>: a pending timer due by then fires.\<close>

definition fireDue ::
  "int \<Rightarrow> userId \<Rightarrow> chatId \<Rightarrow> buffers \<times> int list \<Rightarrow> (buffers \<times> int list) \<times> outcome list" where
  "fireDue t uid cid sa =
     (case processingTimers (fst sa) (uid, cid) of
        None \<Rightarrow> (sa, [])
      | Some due \<Rightarrow>
          if due \<le> t
          then (case flushBuffer uid cid (fst sa) of
                  (st', None) \<Rightarrow> ((st', snd sa), [])
                | (st', Some b) \<Rightarrow>
                    ((st', []), [Flushed \<lparr> flushedAt = due, arrived = snd sa, batch = b \<rparr>]))
          else (sa, []))"

definition ingestAt ::
  "int \<Rightarrow> message \<Rightarrow> userId \<Rightarrow> buffers \<times> int list \<Rightarrow> (buffers \<times> int list) \<times> outcome list" where
  "ingestAt t m uid sa =
     (case processMessage t m uid (fst sa) of
        (st', None) \<Rightarrow> ((st', snd sa @ [t]), [])
      | (st', Some b) \<Rightarrow>
          ((st', []), [Flushed \<lparr> flushedAt = t, arrived = snd sa @ [t], batch = b \<rparr>]))"

definition sweepAt ::
  "int \<Rightarrow> userId \<Rightarrow> chatId \<Rightarrow> buffers \<times> int list \<Rightarrow> (buffers \<times> int list) \<times> outcome list" where
  "sweepAt t uid cid sa =
     (case messageBuffer (fst sa) (uid, cid) of
        None \<Rightarrow> ((cleanup t (fst sa), snd sa), [])
      | Some messages \<Rightarrow>
          (case messageBuffer (cleanup t (fst sa)) (uid, cid) of
             Some kept \<Rightarrow> ((cleanup t (fst sa), snd sa), [])
           | None \<Rightarrow>
               ((cleanup t (fst sa), []),
                [Dropped \<lparr> droppedAt = t, lostArrivals = snd sa, lost = messages \<rparr>])))"

text \<open>
  The events of one conversation in order; before each of them a timer that is due fires,
  and after the last one the pending timer fires when it is due.
\<close>

fun runBuffer ::
  "userId \<Rightarrow> chatId \<Rightarrow> buffers \<times> int list \<Rightarrow> event list \<Rightarrow> outcome list" where
  "runBuffer uid cid sa [] =
     (case processingTimers (fst sa) (uid, cid) of
        None \<Rightarrow> []
      | Some due \<Rightarrow> snd (fireDue due uid cid sa))"
| "runBuffer uid cid sa (Arrive t m # evs) =
     (let (sa1, f1) = fireDue t uid cid sa;
          (sa2, f2) = ingestAt t m uid sa1
      in f1 @ f2 @ runBuffer uid cid sa2 evs)"
| "runBuffer uid cid sa (Sweep t # evs) =
     (let (sa1, f1) = fireDue t uid cid sa;
          (sa2, f2) = sweepAt t uid cid sa1
      in f1 @ f2 @ runBuffer uid cid sa2 evs)"

fun arrivalsOf :: "event list \<Rightarrow> (int \<times> message) list" where
  "arrivalsOf [] = []"
| "arrivalsOf (Arrive t m # evs) = (t, m) # arrivalsOf evs"
| "arrivalsOf (Sweep t # evs) = arrivalsOf evs"

fun flushesOf :: "outcome list \<Rightarrow> flush list" where
  "flushesOf [] = []"
| "flushesOf (Flushed f # os) = f # flushesOf os"
| "flushesOf (Dropped d # os) = flushesOf os"

fun dropsOf :: "outcome list \<Rightarrow> drop list" where
  "dropsOf [] = []"
| "dropsOf (Flushed f # os) = dropsOf os"
| "dropsOf (Dropped d # os) = d # dropsOf os"

text \<open>The messages of an outcome, each with its arrival time.\<close>

fun pairsOf :: "outcome \<Rightarrow> (int \<times> message) list" where
  "pairsOf (Flushed f) = zip (arrived f) (batch f)"
| "pairsOf (Dropped d) = zip (lostArrivals d) (lost d)"

subsection \<open>groupMessagesByTimeAndSender\<close>

definition senderKey :: "message \<Rightarrow> string" where
  "senderKey m =
     (if isGroup m then (if fromMe m then ''me'' else ''other_'' @ fromName m) else from_msg m)"

text \<open>
  The loop variables \<open>groups\<close>, \<open>currentGroup\<close>, \<open>currentSender\<close> and
  \<open>currentTime\<close>; \<open>null\<close> is \<open>None\<close>. The test \<open>currentTime ? ... : 0\<close> takes the
  second branch for \<open>null\<close> and for the number \<open>0\<close>.
\<close>

type_synonym group_state = "message list list \<times> message list \<times> string option \<times> int option"

definition groupStep :: "group_state \<Rightarrow> message \<Rightarrow> group_state" where
  "groupStep gs message =
     (case gs of (groups, currentGroup, currentSender, currentTime) \<Rightarrow>
        let messageTime = timestamp message * 1000;
            timeDiff = (case currentTime of
                          None \<Rightarrow> 0
                        | Some ct \<Rightarrow> if ct = 0 then 0 else messageTime - ct)
        in if currentSender = Some (senderKey message) \<and> timeDiff < 300000
           then (groups, currentGroup @ [message], currentSender, Some messageTime)
           else ((if currentGroup \<noteq> [] then groups @ [currentGroup] else groups),
                 [message], Some (senderKey message), Some messageTime))"

definition groupFinish :: "group_state \<Rightarrow> message list list" where
  "groupFinish gs =
     (case gs of (groups, currentGroup, currentSender, currentTime) \<Rightarrow>
        if currentGroup \<noteq> [] then groups @ [currentGroup] else groups)"

text \<open>\<open>messages.sort((a, b) => a.timestamp - b.timestamp)\<close> is a stable sort on the timestamp.\<close>

definition groupMessagesByTimeAndSender :: "message list \<Rightarrow> message list list" where
  "groupMessagesByTimeAndSender messages =
     groupFinish (foldl groupStep ([], [], None, None) (sort_key timestamp messages))"

text \<open>
  The runs as the specification words them. The grouping key: in a group conversation
  \<open>me\<close> for a message of the account owner and \<open>other_\<close> followed by the display
  name for anyone else; in a one-to-one conversation the raw sender id. A new run starts
  when the grouping key changes or the gap to the previous message reaches five minutes.
\<close>

fun groupingKey :: "bool \<Rightarrow> bool \<Rightarrow> string \<Rightarrow> string \<Rightarrow> string" where
  "groupingKey True True displayName senderId = ''me''"
| "groupingKey True False displayName senderId = ''other_'' @ displayName"
| "groupingKey False owner displayName senderId = senderId"

definition startsNewRun :: "message \<Rightarrow> message \<Rightarrow> bool" where
  "startsNewRun prev m =
     (groupingKey (isGroup m) (fromMe m) (fromName m) (from_msg m)
        \<noteq> groupingKey (isGroup prev) (fromMe prev) (fromName prev) (from_msg prev)
      \<or> timestamp m * 1000 - timestamp prev * 1000 \<ge> 5 * 60 * 1000)"

fun runsOf :: "message list \<Rightarrow> message list list" where
  "runsOf [] = []"
| "runsOf [m] = [[m]]"
| "runsOf (prev # m # ms) =
     (if startsNewRun prev m then [prev] # runsOf (m # ms)
      else (case runsOf (m # ms) of [] \<Rightarrow> [[prev]] | r # rs \<Rightarrow> (prev # r) # rs))"

subsection \<open>Duplicate detection\<close>

text \<open>
  \<open>createActionSignature\<close>: lower-case the description, delete every character that
  is neither a word character nor white space, split at single spaces, keep the pieces
  longer than two, take the first three, sort them (by code unit, the default of
  \<open>sort()\<close>), join with \<open>-\<close> and put the type in front.
\<close>

definition descWords :: "string \<Rightarrow> string list" where
  "descWords descr =
     sort (take 3 (filter (\<lambda>word. length word > 2)
       (split_sp (filter (\<lambda>c. is_word_char c \<or> is_space c) (toLowerCase descr)))))"

definition createActionSignature :: "action \<Rightarrow> string" where
  "createActionSignature a = type a @ ''-'' @ join ''-'' (descWords (description a))"

text \<open>
  \<open>calculateStringSimilarity\<close>. A \<open>Set\<close> built from an array is the list without
  repetitions; only the sizes are used.
\<close>

definition calculateStringSimilarity :: "string \<Rightarrow> string \<Rightarrow> js_num" where
  "calculateStringSimilarity str1 str2 =
     (let words1 = remdups (split_sp str1);
          words2 = remdups (split_sp str2);
          intersection = filter (\<lambda>x. x \<in> set words2) words1;
          union = remdups (words1 @ words2)
      in js_div (length intersection) (length union))"

text \<open>
  An entry of the conversation history, as \<open>loadConversationHistoryForSender\<close> maps a
  row of \<open>ai_actions\<close>.
\<close>

record history_entry =
  h_type :: string
  h_description :: string
  h_createdAt :: int
  h_originalMessage :: "message option"

text \<open>
  The value of \<open>x.originalMessage && x.originalMessage.fromMe\<close>: \<open>None\<close> stands for
  \<open>undefined\<close>, the value when the object has no \<open>originalMessage\<close>.
\<close>

definition fromMeOf :: "message option \<Rightarrow> bool option" where
  "fromMeOf om = map_option fromMe om"

fun similarLoop :: "action \<Rightarrow> history_entry list \<Rightarrow> bool" where
  "similarLoop a [] = False"
| "similarLoop a (historyAction # rest) =
     (if h_type historyAction = type a
      then (if fromMeOf (originalMessage a) = fromMeOf (h_originalMessage historyAction)
            then (if js_gt (calculateStringSimilarity (toLowerCase (description a))
                              (toLowerCase (h_description historyAction)))
                         DUPLICATE_SIMILARITY_THRESHOLD
                  then True
                  else similarLoop a rest)
            else similarLoop a rest)
      else similarLoop a rest)"

definition isSimilarToConversationHistory :: "action \<Rightarrow> history_entry list \<Rightarrow> bool" where
  "isSimilarToConversationHistory a conversationHistory = similarLoop a (take 5 conversationHistory)"

text \<open>\<open>Set.add\<close> on a set kept in insertion order.\<close>

definition setAdd :: "'a \<Rightarrow> 'a list \<Rightarrow> 'a list" where
  "setAdd x xs = (if x \<in> set xs then xs else xs @ [x])"

definition isOutgoingMessage :: "action \<Rightarrow> bool" where
  "isOutgoingMessage a = (case originalMessage a of None \<Rightarrow> False | Some om \<Rightarrow> fromMe om)"

text \<open>One round of the loop of \<open>filterDuplicateActions\<close> over \<open>filtered\<close> and \<open>userDuplicates\<close>.\<close>

definition filterStep ::
  "history_entry list \<Rightarrow> action list \<times> string list \<Rightarrow> action \<Rightarrow> action list \<times> string list" where
  "filterStep conversationHistory fu a =
     (case fu of (filtered, userDuplicates) \<Rightarrow>
        let signature = createActionSignature a
        in if isOutgoingMessage a
           then (filtered @ [a], setAdd signature userDuplicates)
           else if signature \<in> set userDuplicates then (filtered, userDuplicates)
           else if isSimilarToConversationHistory a conversationHistory then (filtered, userDuplicates)
           else (filtered @ [a], setAdd signature userDuplicates))"

type_synonym tracker = "userId \<rightharpoonup> string list"

definition filterDuplicateActions ::
  "action list \<Rightarrow> userId \<Rightarrow> history_entry list \<Rightarrow> tracker \<Rightarrow> action list \<times> tracker" where
  "filterDuplicateActions actions uid conversationHistory duplicateTracker =
     (let userDuplicates = (case duplicateTracker uid of None \<Rightarrow> [] | Some s \<Rightarrow> s);
          (filtered, userDuplicates') = foldl (filterStep conversationHistory) ([], userDuplicates) actions
      in (filtered, duplicateTracker(uid \<mapsto> userDuplicates')))"

subsection \<open>Group topics\<close>

definition commonWords :: "string list" where
  "commonWords = [''the'', ''and'', ''or'', ''but'', ''in'', ''on'', ''at'', ''to'', ''for'', ''of'',
     ''with'', ''by'', ''is'', ''are'', ''was'', ''were'', ''be'', ''been'', ''have'', ''has'', ''had'',
     ''do'', ''does'', ''did'', ''will'', ''would'', ''could'', ''should'', ''may'', ''might'', ''can'',
     ''must'', ''shall'']"

definition extractTopicKeywords :: "string \<Rightarrow> string list" where
  "extractTopicKeywords text =
     take 10 (filter (\<lambda>word. length word > 2 \<and> word \<notin> set commonWords)
       (split_ws (map (\<lambda>c. if is_word_char c \<or> is_space c then c else CHR '' '') (toLowerCase text))))"

definition calculateKeywordOverlap :: "string list \<Rightarrow> string list \<Rightarrow> js_num" where
  "calculateKeywordOverlap keywords1 keywords2 =
     (if length keywords1 = 0 \<or> length keywords2 = 0 then Finite 0
      else (let set1 = remdups keywords1;
                set2 = remdups keywords2;
                intersection = filter (\<lambda>x. x \<in> set set2) set1;
                union = remdups (set1 @ set2)
            in js_div (length intersection) (length union)))"

text \<open>A row of \<open>ai_actions\<close> as \<open>loadGroupTopicContext\<close> reads it, and a topic it builds.\<close>

record topic_row =
  r_type :: string
  r_description :: string
  r_user_id :: userId
  r_created_at :: int

record topic =
  t_type :: string
  t_description :: string
  users :: "userId list"
  t_actions :: "topic_row list"
  lastUpdate :: int

definition topicKeyOf :: "topic_row \<Rightarrow> string" where
  "topicKeyOf row = r_type row @ ''-'' @ join ''-'' (extractTopicKeywords (r_description row))"

text \<open>
  \<open>topicMap\<close> is a \<open>Map\<close>, iterated in insertion order: an association list that keeps
  the position of a key when its value is updated.
\<close>

fun upsertTopic :: "string \<Rightarrow> topic_row \<Rightarrow> (string \<times> topic) list \<Rightarrow> (string \<times> topic) list" where
  "upsertTopic k row [] =
     [(k, \<lparr> t_type = r_type row, t_description = r_description row, users = [r_user_id row],
            t_actions = [row], lastUpdate = r_created_at row \<rparr>)]"
| "upsertTopic k row ((k', t) # rest) =
     (if k' = k
      then (k', t\<lparr> users := setAdd (r_user_id row) (users t), t_actions := t_actions t @ [row] \<rparr>) # rest
      else (k', t) # upsertTopic k row rest)"

definition loadGroupTopicContext :: "topic_row list \<Rightarrow> topic list" where
  "loadGroupTopicContext rows = map snd (foldl (\<lambda>topicMap row. upsertTopic (topicKeyOf row) row topicMap) [] rows)"

text \<open>The loop of \<open>checkGroupTopicDuplicate\<close>; \<open>now\<close> is \<open>Date.now()\<close>.\<close>

fun topicLoop :: "int \<Rightarrow> string list \<Rightarrow> userId \<Rightarrow> topic list \<Rightarrow> bool" where
  "topicLoop now messageKeywords uid [] = False"
| "topicLoop now messageKeywords uid (topic # rest) =
     (if js_gt (calculateKeywordOverlap messageKeywords (extractTopicKeywords (t_description topic)))
           GROUP_TOPIC_SIMILARITY_THRESHOLD
      then (if uid \<in> set (users topic) then True
            else if length (users topic) \<ge> 2 \<and> length (t_actions topic) \<ge> 2
            then (if (of_int (now - lastUpdate topic) :: rat) / (1000 * 60 * 60) < 2 then True
                  else topicLoop now messageKeywords uid rest)
            else topicLoop now messageKeywords uid rest)
      else topicLoop now messageKeywords uid rest)"

definition checkGroupTopicDuplicate :: "int \<Rightarrow> message \<Rightarrow> topic list \<Rightarrow> userId \<Rightarrow> bool" where
  "checkGroupTopicDuplicate now messageData groupTopicContext uid =
     topicLoop now (extractTopicKeywords (body messageData)) uid groupTopicContext"

subsection \<open>Collaborators and side effects\<close>

text \<open>
  What the collaborators answer during one call of \<open>processMessageGroup\<close>: the clock,
  whether \<open>this.db\<close> is usable, how many stored actions \<open>checkExistingActions\<close> finds
  for the messages of the group, what the classification request comes to, whether the
  \<open>INSERT\<close> resolves, whether a push client is set, what the look-up of the player id
  gives, whether \<open>createNotification\<close> resolves, and \<open>toLocaleTimeString\<close>.
\<close>

datatype player_lookup = LookupRejected | NoPlayerId | PlayerId string

record env =
  e_now :: int
  dbAvailable :: bool
  existingActions :: "message list \<Rightarrow> userId \<Rightarrow> nat"
  classify :: "message \<Rightarrow> classifier_outcome"
  insertResolves :: "action \<Rightarrow> message \<Rightarrow> userId \<Rightarrow> bool"
  oneSignalClient :: bool
  playerLookup :: "userId \<Rightarrow> player_lookup"
  createNotificationResolves :: "action \<Rightarrow> bool"
  timeStr :: "int \<Rightarrow> string"

text \<open>
  The side effects, in the order in which they happen: the classification request, the
  stored row, the request to the push service, the event sent to the user's live
  connection, an error written by \<open>console.error\<close>, and the two updates of the
  in-memory caches (\<open>conversationHistory\<close> and \<open>groupTopicTracker\<close>, which nothing
  in the pipeline reads back).
\<close>

datatype effect =
    Classified message
  | Persisted userId action message
  | PushRequested userId action
  | Emitted userId action message
  | Logged string
  | HistoryUpdated userId chatId "action list"
  | TopicTrackerUpdated chatId userId "action list"

text \<open>How an \<open>async\<close> function ends: its promise resolves, or rejects with an error.\<close>

datatype completion = Resolved | Rejected string

text \<open>\<open>sendActionNotification\<close>: the whole body is inside \<open>try\<close>, so it always resolves.\<close>

definition sendActionNotification :: "env \<Rightarrow> action \<Rightarrow> userId \<Rightarrow> effect list" where
  "sendActionNotification e a uid =
     (if \<not> oneSignalClient e then []
      else if \<not> dbAvailable e then [Logged ''Failed to send OneSignal notification'']
      else (case playerLookup e uid of
              LookupRejected \<Rightarrow> [Logged ''Failed to send OneSignal notification'']
            | NoPlayerId \<Rightarrow> []
            | PlayerId pid \<Rightarrow>
                if createNotificationResolves e a then [PushRequested uid a]
                else [PushRequested uid a, Logged ''Failed to send OneSignal notification'']))"

text \<open>
  The \<open>try\<close> block of \<open>saveAndEmitAction\<close>: the effects up to the point where it
  ends, and how it ends. The action id (clock and random digits) and the default values
  put into \<open>actionDetails\<close> only shape the stored row and the event.
\<close>

definition saveAndEmitTry :: "env \<Rightarrow> action \<Rightarrow> message \<Rightarrow> userId \<Rightarrow> effect list \<times> completion" where
  "saveAndEmitTry e a messageData uid =
     (let actionWithId = a\<lparr> originalMessage := Some messageData \<rparr>
      in if dbAvailable e \<and> \<not> insertResolves e a messageData uid
         then ([], Rejected ''INSERT INTO ai_actions failed'')
         else ((if dbAvailable e then [Persisted uid a messageData] else [])
               @ sendActionNotification e actionWithId uid
               @ [Emitted uid a messageData], Resolved))"

text \<open>The \<open>catch\<close> clause writes the error with \<open>console.error\<close> and the function returns.\<close>

definition saveAndEmitAction :: "env \<Rightarrow> action \<Rightarrow> message \<Rightarrow> userId \<Rightarrow> effect list \<times> completion" where
  "saveAndEmitAction e a messageData uid =
     (case saveAndEmitTry e a messageData uid of
        (effs, Resolved) \<Rightarrow> (effs, Resolved)
      | (effs, Rejected err) \<Rightarrow> (effs @ [Logged err], Resolved))"

text \<open>
  \<open>for (const action of filteredActions) await this.saveAndEmitAction(...)\<close>: the
  caller has no \<open>try\<close> of its own, so a rejection would end the loop and reject the caller.
\<close>

fun saveAll :: "env \<Rightarrow> message \<Rightarrow> userId \<Rightarrow> action list \<Rightarrow> effect list \<times> completion" where
  "saveAll e messageData uid [] = ([], Resolved)"
| "saveAll e messageData uid (a # rest) =
     (case saveAndEmitAction e a messageData uid of
        (effs, Rejected err) \<Rightarrow> (effs, Rejected err)
      | (effs, Resolved) \<Rightarrow>
          (case saveAll e messageData uid rest of (effs', c) \<Rightarrow> (effs @ effs', c)))"

subsection \<open>processMessageGroup\<close>

text \<open>
  \<open>createCombinedMessage\<close>; the property \<open>originalMessages\<close> of the combined
  message is read nowhere and is left out. A run is never empty; \<open>None\<close> stands for the
  object without sender that the source would build from an empty one.
\<close>

definition createCombinedMessage :: "env \<Rightarrow> message list \<Rightarrow> message option" where
  "createCombinedMessage e messageGroup =
     (case messageGroup of
        [] \<Rightarrow> None
      | [m] \<Rightarrow> Some m
      | firstMessage # _ \<Rightarrow>
          Some (firstMessage\<lparr> body := join [CHR 0x0A]
                    (map (\<lambda>msg. ''['' @ timeStr e (timestamp msg) @ ''] '' @ body msg) messageGroup),
                  messageCount := Some (length messageGroup),
                  isGroupedMessage := True \<rparr>))"

text \<open>
  \<open>processMessageGroup\<close> on the duplicate tracker: the new tracker, the side effects in
  order, and how the call ends. \<open>groupTopicContext\<close> is \<open>None\<close> for \<open>null\<close>.
\<close>

definition processMessageGroup ::
  "env \<Rightarrow> tracker \<Rightarrow> message list \<Rightarrow> userId \<Rightarrow> chatId \<Rightarrow> history_entry list \<Rightarrow> topic list option
    \<Rightarrow> tracker \<times> effect list \<times> completion" where
  "processMessageGroup e duplicateTracker messageGroup uid cid conversationHistory groupTopicContext =
     (case createCombinedMessage e messageGroup of
        None \<Rightarrow> (duplicateTracker, [], Resolved)
      | Some combinedMessage \<Rightarrow>
          if dbAvailable e \<and> existingActions e messageGroup uid > 0
          then (duplicateTracker, [], Resolved)
          else if isGroup combinedMessage
                  \<and> (case groupTopicContext of
                        None \<Rightarrow> False
                      | Some ctx \<Rightarrow> checkGroupTopicDuplicate (e_now e) combinedMessage ctx uid)
          then (duplicateTracker, [], Resolved)
          else (let potentialActions =
                      processMessageWithHistory (e_now e) (classify e combinedMessage) combinedMessage
                in if potentialActions = [] then (duplicateTracker, [Classified combinedMessage], Resolved)
                   else (let (filteredActions, duplicateTracker') =
                               filterDuplicateActions potentialActions uid conversationHistory duplicateTracker
                         in case saveAll e combinedMessage uid filteredActions of
                              (effs, Rejected err) \<Rightarrow>
                                (duplicateTracker', Classified combinedMessage # effs, Rejected err)
                            | (effs, Resolved) \<Rightarrow>
                                (duplicateTracker',
                                 Classified combinedMessage # effs
                                 @ [HistoryUpdated uid cid filteredActions]
                                 @ (if isGroup combinedMessage
                                    then [TopicTrackerUpdated cid uid filteredActions] else []),
                                 Resolved))))"

section \<open>Notions used in the statements and proofs\<close>

text \<open>The pending messages of one buffer; an absent buffer has none.\<close>

definition bufOf :: "buffers \<Rightarrow> userId \<times> chatId \<Rightarrow> message list" where
  "bufOf st k = (case messageBuffer st k of None \<Rightarrow> [] | Some b \<Rightarrow> b)"

text \<open>
  The invariant of one buffer between two events: fewer than \<open>MAX_GROUP_SIZE\<close> messages
  are pending; without a timer none is; if messages are pending, the timer is due one delay
  after the last arrival, and at most one delay per pending message after the first arrival.
  (A timer without pending messages is what a sweep leaves behind.)
\<close>

definition bufInv :: "userId \<Rightarrow> chatId \<Rightarrow> buffers \<times> int list \<Rightarrow> bool" where
  "bufInv uid cid sa \<longleftrightarrow>
     length (snd sa) = length (bufOf (fst sa) (uid, cid))
     \<and> length (snd sa) < MAX_GROUP_SIZE
     \<and> (case processingTimers (fst sa) (uid, cid) of
          None \<Rightarrow> snd sa = []
        | Some due \<Rightarrow> snd sa = [] \<or> (due = last (snd sa) + GROUP_DELAY_MS
                      \<and> due \<le> hd (snd sa) + int (length (snd sa)) * GROUP_DELAY_MS))"

text \<open>
  What holds of a flush: it hands over between one and \<open>MAX_GROUP_SIZE\<close> messages; a
  full batch is flushed at the arrival of its last message, any other batch exactly one
  delay after the arrival of its last message; and that is at most
  \<open>MAX_GROUP_SIZE - 1\<close> delays after the arrival of its first message.
\<close>

definition flushOk :: "flush \<Rightarrow> bool" where
  "flushOk f \<longleftrightarrow>
     arrived f \<noteq> [] \<and> length (batch f) = length (arrived f) \<and> length (batch f) \<le> MAX_GROUP_SIZE
     \<and> flushedAt f = (if length (batch f) = MAX_GROUP_SIZE then last (arrived f)
                      else last (arrived f) + GROUP_DELAY_MS)
     \<and> flushedAt f \<le> hd (arrived f) + (int MAX_GROUP_SIZE - 1) * GROUP_DELAY_MS"

text \<open>
  What holds of a drop: messages were pending, the first of them was sent more than an
  hour before the sweep, and the sweep came less than \<open>MAX_GROUP_SIZE - 1\<close> delays after
  that message arrived.
\<close>

definition dropOk :: "drop \<Rightarrow> bool" where
  "dropOk d \<longleftrightarrow>
     lostArrivals d \<noteq> [] \<and> length (lost d) = length (lostArrivals d)
     \<and> droppedAt d - timestamp (hd (lost d)) * 1000 > cleanupThreshold
     \<and> droppedAt d < hd (lostArrivals d) + (int MAX_GROUP_SIZE - 1) * GROUP_DELAY_MS"

fun outcomeOk :: "outcome \<Rightarrow> bool" where
  "outcomeOk (Flushed f) = flushOk f"
| "outcomeOk (Dropped d) = dropOk d"

text \<open>When a topic makes \<open>checkGroupTopicDuplicate\<close> answer true.\<close>

definition topicMatches :: "int \<Rightarrow> string list \<Rightarrow> userId \<Rightarrow> topic \<Rightarrow> bool" where
  "topicMatches now kws uid t \<longleftrightarrow>
     js_gt (calculateKeywordOverlap kws (extractTopicKeywords (t_description t))) (7 / 10)
     \<and> (uid \<in> set (users t)
        \<or> (length (users t) \<ge> 2 \<and> length (t_actions t) \<ge> 2 \<and> now - lastUpdate t < 2 * 60 * 60 * 1000))"

text \<open>The position of a side effect in the order persist, push, live event.\<close>

fun stage :: "effect \<Rightarrow> nat option" where
  "stage (Persisted u a m) = Some 0"
| "stage (PushRequested u a) = Some 1"
| "stage (Emitted u a m) = Some 2"
| "stage _ = None"

section \<open>Concrete inputs\<close>

definition exampleMessage :: "string \<Rightarrow> string \<Rightarrow> int \<Rightarrow> bool \<Rightarrow> message" where
  "exampleMessage i b ts mine =
     \<lparr> id_msg = i, from_msg = ''60123456789'', fromName = ''Ali'', chatName = ''Ali'', body = b,
       timestamp = ts, isGroup = False, fromMe = mine, isGroupedMessage = False, messageCount = None \<rparr>"

definition groupMessage :: "string \<Rightarrow> string \<Rightarrow> string \<Rightarrow> int \<Rightarrow> bool \<Rightarrow> message" where
  "groupMessage i who b ts mine =
     \<lparr> id_msg = i, from_msg = ''60123456789'', fromName = who, chatName = ''Team'', body = b,
       timestamp = ts, isGroup = True, fromMe = mine, isGroupedMessage = False, messageCount = None \<rparr>"

text \<open>
  Collaborators for which the classification request fails, so that the fallback
  classifies; the database is up, and the \<open>INSERT\<close> resolves or not as the argument says.
\<close>

definition exampleEnv :: "bool \<Rightarrow> env" where
  "exampleEnv insertOk =
     \<lparr> e_now = 1700000100000, dbAvailable = True, existingActions = (\<lambda>ms u. 0),
       classify = (\<lambda>m. CallFailed), insertResolves = (\<lambda>a m u. insertOk), oneSignalClient = True,
       playerLookup = (\<lambda>u. PlayerId ''p1''), createNotificationResolves = (\<lambda>a. True),
       timeStr = (\<lambda>t. ''10:00:00'') \<rparr>"

definition exampleCandidate :: "string \<Rightarrow> rat \<Rightarrow> action" where
  "exampleCandidate ty conf =
     candidate ty ''Call the client'' ''Call'' ''call the client'' None ''medium'' ''general'' None [] None conf"

definition remindMessage :: "string \<Rightarrow> int \<Rightarrow> bool \<Rightarrow> message" where
  "remindMessage i ts mine = exampleMessage i ''remind me tomorrow at 3pm'' ts mine"

definition longMessage :: message where
  "longMessage =
     exampleMessage ''m9'' ''Greetings, enjoy the sunshine; the kids love the big blue kite lots''
       1700000000 False"

text \<open>
  A group conversation in which a reminder was stored for user 7, some hours ago, for a
  message of another member; the same member now sends the same words again. The stored
  row as the history of the sender holds it, and as the topic context is built from it.
\<close>

definition incomingGroupRemind :: message where
  "incomingGroupRemind = groupMessage ''g6'' ''Siti'' ''remind me tomorrow at 3pm'' 1700000060 False"

definition storedReminder :: history_entry where
  "storedReminder =
     \<lparr> h_type = ''reminder'', h_description = ''Time-based reminder or scheduling needed'',
       h_createdAt = 1699990000000,
       h_originalMessage = Some (groupMessage ''g0'' ''Siti'' ''remind me tomorrow at 3pm'' 1699990000 False) \<rparr>"

definition reminderRows :: "topic_row list" where
  "reminderRows =
     [\<lparr> r_type = ''reminder'', r_description = ''Time-based reminder or scheduling needed'',
        r_user_id = 7, r_created_at = 1699990000000 \<rparr>]"

definition teamRows :: "topic_row list" where
  "teamRows =
     [\<lparr> r_type = ''task'', r_description = ''Prepare the quarterly sales report'', r_user_id = 7,
        r_created_at = 1700000000000 \<rparr>]"

text \<open>
  A reminder worded differently from the one of the fallback, with the same type and the
  same first three words longer than two characters.
\<close>

definition rewordedReminder :: action where
  "rewordedReminder =
     candidate ''reminder'' ''Time-based reminder: scheduling a call'' ''Reminder'' ''call at 3pm''
       None ''medium'' ''scheduling'' None [] None (9 / 10)"

text \<open>Two messages of the owner and one of the other party, a minute apart, with the same wording.\<close>

definition ownerFirst :: message where
  "ownerFirst = remindMessage ''m1'' 1700000000 True"

definition ownerSecond :: message where
  "ownerSecond = remindMessage ''m2'' 1700000060 True"

definition incomingRemind :: message where
  "incomingRemind = remindMessage ''m3'' 1700000060 False"

text \<open>Two arrivals ten seconds apart in one conversation (times in milliseconds).\<close>

definition twoArrivals :: "event list" where
  "twoArrivals =
     [Arrive 0 (exampleMessage ''m1'' ''hello'' 1700000000 False),
      Arrive 10000 (exampleMessage ''m2'' ''again'' 1700000010 False)]"

text \<open>
  Two messages that arrive a second after they were sent, ten seconds apart, and a sweep
  nine seconds after the second arrival.
\<close>

definition freshTrace :: "event list" where
  "freshTrace =
     [Arrive 1700000001000 (exampleMessage ''m1'' ''hello'' 1700000000 False),
      Arrive 1700000011000 (exampleMessage ''m2'' ''again'' 1700000010 False),
      Sweep 1700000020000]"

text \<open>
  A message sent three hours before it is delivered, and a sweep five seconds after the
  delivery (times in milliseconds, timestamps in seconds).
\<close>

definition staleArrival :: "event list" where
  "staleArrival =
     [Arrive 1700010800000 (exampleMessage ''m3'' ''late'' 1700000000 False), Sweep 1700010805000]"

text \<open>
  A group conversation in which a named other sends two messages ten seconds apart between
  two messages of the owner, and another named other follows; and a one-to-one
  conversation in which the other party and the owner write ten seconds apart and the
  other party again exactly five minutes later.
\<close>

definition groupBatch :: "message list" where
  "groupBatch =
     [groupMessage ''g1'' ''Me'' ''first'' 1700000000 True,
      groupMessage ''g2'' ''Siti'' ''second'' 1700000010 False,
      groupMessage ''g3'' ''Siti'' ''third'' 1700000020 False,
      groupMessage ''g4'' ''Ravi'' ''fourth'' 1700000030 False,
      groupMessage ''g5'' ''Me'' ''fifth'' 1700000040 True]"

definition directBatch :: "message list" where
  "directBatch =
     [exampleMessage ''d1'' ''one'' 1700000000 False,
      exampleMessage ''d3'' ''three'' 1700000310 False,
      exampleMessage ''d2'' ''two'' 1700000010 True]"

definition reportGroupMessage :: message where
  "reportGroupMessage = groupMessage ''g4'' ''Siti'' ''prepare quarterly sales report'' 1700000050 False"

definition quietGroupMessage :: message where
  "quietGroupMessage = groupMessage ''g5'' ''Siti'' ''ok is at'' 1700000050 False"

section \<open>Verification\<close>

subsection \<open>Selection of the best candidate\<close>

lemma foldl_better_mem: "foldl better a as \<in> set (a # as)"
  by (induction as arbitrary: a) (auto simp: better_def)

lemma foldl_better_ge_init: "confidence a \<le> confidence (foldl better a as)"
proof (induction as arbitrary: a)
  case Nil
  show ?case by simp
next
  case (Cons x xs)
  have "confidence a \<le> confidence (better a x)" by (simp add: better_def)
  also have "\<dots> \<le> confidence (foldl better (better a x) xs)" by (rule Cons.IH)
  finally show ?case by simp
qed

lemma foldl_better_max: "x \<in> set (a # as) \<Longrightarrow> confidence x \<le> confidence (foldl better a as)"
proof (induction as arbitrary: a)
  case Nil
  then show ?case by simp
next
  case (Cons y ys)
  have step: "confidence a \<le> confidence (better a y)" "confidence y \<le> confidence (better a y)"
    by (simp_all add: better_def)
  from Cons.prems consider "x = a" | "x = y" | "x \<in> set ys" by auto
  then show ?case
  proof cases
    case 1
    with step(1) foldl_better_ge_init [of "better a y" ys] show ?thesis by simp
  next
    case 2
    with step(2) foldl_better_ge_init [of "better a y" ys] show ?thesis by simp
  next
    case 3
    then have "x \<in> set (better a y # ys)" by simp
    from Cons.IH [OF this] show ?thesis by simp
  qed
qed

lemma foldl_better_first: "\<forall>x\<in>set as. confidence x \<le> confidence a \<Longrightarrow> foldl better a as = a"
  by (induction as) (auto simp: better_def)

lemma reduceBest_None: "reduceBest xs = None \<longleftrightarrow> xs = []"
  by (cases xs) simp_all

lemma reduceBest_Some:
  "reduceBest xs = Some b \<Longrightarrow> b \<in> set xs \<and> (\<forall>x\<in>set xs. confidence x \<le> confidence b)"
proof (cases xs)
  case Nil
  assume "reduceBest xs = Some b"
  with Nil show ?thesis by simp
next
  case (Cons a as)
  assume "reduceBest xs = Some b"
  with Cons have b: "b = foldl better a as" by simp
  show ?thesis unfolding b Cons using foldl_better_mem [of a as] foldl_better_max [of _ a as] by blast
qed

text \<open>
  A candidate whose confidence is exactly 0.7 does not pass \<open>action.confidence > 0.7\<close>:
  the list that holds only this candidate gives the empty result.
\<close>

theorem confidence_exactly_floor_rejected:
  "confidence (exampleCandidate ''task'' (7 / 10)) = 7 / 10
   \<and> selectBest [exampleCandidate ''task'' (7 / 10)] = []"
  by (simp add: selectBest_def highConfidenceActions_def exampleCandidate_def candidate_def)

text \<open>
  C2, amended. From the candidates that the classifier returned, the pipeline selects one
  candidate of highest confidence among those whose confidence is strictly greater than
  0.7, and returns the empty list exactly when no candidate is strictly above 0.7; the
  result never has more than one element.
\<close>

theorem selectBest_strict_floor:
  "(selectBest actions = [] \<longleftrightarrow> (\<forall>a\<in>set actions. \<not> confidence a > 7 / 10))
   \<and> (\<forall>b. selectBest actions = [b] \<longrightarrow>
         b \<in> set actions \<and> confidence b > 7 / 10
         \<and> (\<forall>a\<in>set actions. confidence a > 7 / 10 \<longrightarrow> confidence a \<le> confidence b))
   \<and> length (selectBest actions) \<le> 1"
proof (cases "reduceBest (highConfidenceActions actions)")
  case None
  then have "highConfidenceActions actions = []" by (simp add: reduceBest_None)
  then have "\<forall>a\<in>set actions. \<not> confidence a > 7 / 10"
    by (simp add: highConfidenceActions_def filter_empty_conv)
  with None show ?thesis by (simp add: selectBest_def)
next
  case (Some b)
  from reduceBest_Some [OF Some]
  have b: "b \<in> set (highConfidenceActions actions)"
    and mx: "\<forall>x\<in>set (highConfidenceActions actions). confidence x \<le> confidence b" by simp_all
  from b have "b \<in> set actions" "confidence b > 7 / 10" by (simp_all add: highConfidenceActions_def)
  moreover from mx have "\<forall>a\<in>set actions. confidence a > 7 / 10 \<longrightarrow> confidence a \<le> confidence b"
    by (simp add: highConfidenceActions_def)
  ultimately show ?thesis using Some by (auto simp: selectBest_def)
qed

text \<open>The list of the specification, with confidences 0.65, 0.81 and 0.9: the last one is selected.\<close>

theorem selectBest_strict_floor_witness:
  "selectBest [exampleCandidate ''a'' (65 / 100), exampleCandidate ''b'' (81 / 100),
               exampleCandidate ''c'' (9 / 10)] = [exampleCandidate ''c'' (9 / 10)]
   \<and> exampleCandidate ''c'' (9 / 10) \<in> set [exampleCandidate ''a'' (65 / 100),
        exampleCandidate ''b'' (81 / 100), exampleCandidate ''c'' (9 / 10)]
   \<and> 7 / 10 < confidence (exampleCandidate ''c'' (9 / 10))"
  using selectBest_strict_floor [of "[exampleCandidate ''a'' (65 / 100), exampleCandidate ''b'' (81 / 100),
               exampleCandidate ''c'' (9 / 10)]"]
  by (simp add: selectBest_def highConfidenceActions_def exampleCandidate_def candidate_def better_def)

subsection \<open>The fallback classifier\<close>

lemma includes_js_iff: "includes_js s k \<longleftrightarrow> (\<exists>p q. s = p @ k @ q)"
proof (induction s)
  case Nil
  show ?case by auto
next
  case (Cons c s)
  show ?case
  proof
    assume "includes_js (c # s) k"
    then consider "take (length k) (c # s) = k" | "includes_js s k" by auto
    then show "\<exists>p q. c # s = p @ k @ q"
    proof cases
      case 1
      then have "c # s = [] @ k @ drop (length k) (c # s)"
        by (metis append_Nil append_take_drop_id)
      then show ?thesis by blast
    next
      case 2
      with Cons.IH obtain p q where "s = p @ k @ q" by blast
      then have "c # s = (c # p) @ k @ q" by simp
      then show ?thesis by blast
    qed
  next
    assume "\<exists>p q. c # s = p @ k @ q"
    then obtain p q where pq: "c # s = p @ k @ q" by blast
    show "includes_js (c # s) k"
    proof (cases p)
      case Nil
      with pq have "take (length k) (c # s) = k" by simp
      then show ?thesis by simp
    next
      case (Cons d p')
      with pq have "s = p' @ k @ q" by simp
      with Cons.IH have "includes_js s k" by blast
      then show ?thesis by simp
    qed
  qed
qed

lemma includes_js_trans: "includes_js s k \<Longrightarrow> includes_js k j \<Longrightarrow> includes_js s j"
proof -
  assume "includes_js s k" "includes_js k j"
  then obtain p q p' q' where "s = p @ k @ q" "k = p' @ j @ q'" by (auto simp: includes_js_iff)
  then have "s = (p @ p') @ j @ (q' @ q)" by simp
  then show ?thesis unfolding includes_js_iff by blast
qed

lemma keywordCandidates_confidence:
  "(kws, a) \<in> set (keywordCandidates m) \<Longrightarrow> confidence a \<le> 8 / 10"
  by (auto simp: keywordCandidates_def candidate_def)

lemma fallback_reminder_first:
  assumes "mentions (toLowerCase (body m)) timeKeywords"
  shows "fallbackProcessing now m = [reminderCandidate now m]"
proof -
  let ?rest = "map snd (filter (\<lambda>(keywords, a). mentions (toLowerCase (body m)) keywords) (keywordCandidates m))"
  have cands: "fallbackCandidates now m = reminderCandidate now m # ?rest"
    using assms by (simp add: fallbackCandidates_def Let_def)
  have "\<forall>x\<in>set ?rest. confidence x \<le> confidence (reminderCandidate now m)"
    using keywordCandidates_confidence [of _ _ m]
    by (auto simp: reminderCandidate_def candidate_def)
  then have "foldl better (reminderCandidate now m) ?rest = reminderCandidate now m"
    by (rule foldl_better_first)
  then show ?thesis by (simp add: fallbackProcessing_def cands)
qed

lemma remind_phrase_mentions_time:
  assumes "includes_js msg ''remind me tomorrow at 3pm''"
  shows "mentions msg timeKeywords"
proof -
  have "includes_js ''remind me tomorrow at 3pm'' ''remind me''" by simp
  with assms have "includes_js msg ''remind me''" by (rule includes_js_trans)
  then show ?thesis by (simp add: mentions_def timeKeywords_def)
qed

text \<open>
  Unparseable classifier output gives the empty list although the fallback would have
  produced a reminder for the same message; and the fallback returns its best candidate
  below the floor too (a long message without keywords gives the note of confidence 0.6).
\<close>

theorem parse_failure_skips_fallback:
  "processMessageWithHistory 0 Unparseable incomingRemind = []
   \<and> fallbackProcessing 0 incomingRemind = [reminderCandidate 0 incomingRemind]
   \<and> fallbackProcessing 0 longMessage = [longNoteCandidate longMessage]
   \<and> confidence (longNoteCandidate longMessage) = 6 / 10"
  by code_simp

text \<open>
  C3, amended. When the classification request itself fails (the outer \<open>catch\<close>), the
  keyword-based fallback classifier is invoked on the message and returns at most one
  candidate, one of highest confidence among its candidates, with no confidence floor; when
  the classifier's output cannot be parsed, the result is the empty list and the fallback
  is not invoked. A failed request on a message containing "remind me tomorrow at 3pm"
  yields a reminder.
\<close>

theorem fallback_on_call_failure:
  "processMessageWithHistory now CallFailed m = fallbackProcessing now m
   \<and> processMessageWithHistory now Unparseable m = []
   \<and> length (fallbackProcessing now m) \<le> 1
   \<and> (fallbackProcessing now m = [] \<longleftrightarrow> fallbackCandidates now m = [])
   \<and> (\<forall>b. fallbackProcessing now m = [b] \<longrightarrow>
         b \<in> set (fallbackCandidates now m)
         \<and> (\<forall>a\<in>set (fallbackCandidates now m). confidence a \<le> confidence b))
   \<and> (includes_js (toLowerCase (body m)) ''remind me tomorrow at 3pm'' \<longrightarrow>
         map type (fallbackProcessing now m) = [''reminder''])"
proof -
  have a: "processMessageWithHistory now CallFailed m = fallbackProcessing now m"
    and b: "processMessageWithHistory now Unparseable m = []"
    by (simp_all add: processMessageWithHistory_def)
  have c: "length (fallbackProcessing now m) \<le> 1"
    by (simp add: fallbackProcessing_def split: option.splits)
  have d: "fallbackProcessing now m = [] \<longleftrightarrow> fallbackCandidates now m = []"
    by (simp add: fallbackProcessing_def reduceBest_None [symmetric] split: option.splits)
  have e: "\<forall>b. fallbackProcessing now m = [b] \<longrightarrow>
         b \<in> set (fallbackCandidates now m)
         \<and> (\<forall>a\<in>set (fallbackCandidates now m). confidence a \<le> confidence b)"
    using reduceBest_Some [of "fallbackCandidates now m"]
    by (auto simp: fallbackProcessing_def split: option.splits)
  have f: "includes_js (toLowerCase (body m)) ''remind me tomorrow at 3pm'' \<longrightarrow>
         map type (fallbackProcessing now m) = [''reminder'']"
  proof
    assume "includes_js (toLowerCase (body m)) ''remind me tomorrow at 3pm''"
    then have "mentions (toLowerCase (body m)) timeKeywords" by (rule remind_phrase_mentions_time)
    then have "fallbackProcessing now m = [reminderCandidate now m]" by (rule fallback_reminder_first)
    then show "map type (fallbackProcessing now m) = [''reminder'']"
      by (simp add: reminderCandidate_def candidate_def)
  qed
  from a b c d e f show ?thesis by blast
qed

theorem fallback_on_call_failure_witness:
  "includes_js (toLowerCase (body incomingRemind)) ''remind me tomorrow at 3pm''
   \<and> map type (fallbackProcessing 0 incomingRemind) = [''reminder'']
   \<and> processMessageWithHistory 0 CallFailed incomingRemind = fallbackProcessing 0 incomingRemind"
proof -
  have h: "includes_js (toLowerCase (body incomingRemind)) ''remind me tomorrow at 3pm''"
    by code_simp
  from fallback_on_call_failure [of 0 incomingRemind] h show ?thesis by blast
qed

subsection \<open>The flush timer\<close>

lemma flushBuffer_nonempty:
  "bufOf st (uid, cid) \<noteq> [] \<Longrightarrow>
   flushBuffer uid cid st =
     (st\<lparr> processingTimers := (processingTimers st)((uid, cid) := None),
          messageBuffer := (messageBuffer st)((uid, cid) \<mapsto> []) \<rparr>, Some (bufOf st (uid, cid)))"
  by (auto simp: flushBuffer_def bufOf_def Let_def split: option.splits)

lemma flushBuffer_empty:
  "bufOf st (uid, cid) = [] \<Longrightarrow>
   flushBuffer uid cid st = (st\<lparr> processingTimers := (processingTimers st)((uid, cid) := None) \<rparr>, None)"
  by (auto simp: flushBuffer_def bufOf_def Let_def split: option.splits)

lemma cleanup_timers: "processingTimers (cleanup t st) = processingTimers st"
  by (simp add: cleanup_def)

lemma cleanup_keeps:
  "messageBuffer (cleanup t st) k = Some kept \<Longrightarrow> messageBuffer st k = Some kept"
  by (auto simp: cleanup_def split: option.splits list.splits if_splits)

lemma cleanup_deletes:
  "messageBuffer st k = Some messages \<Longrightarrow> messageBuffer (cleanup t st) k = None \<Longrightarrow>
   messages \<noteq> [] \<and> t - timestamp (hd messages) * 1000 > cleanupThreshold"
  by (auto simp: cleanup_def split: list.splits if_splits)

lemma cleanup_absent: "messageBuffer st k = None \<Longrightarrow> messageBuffer (cleanup t st) k = None"
  by (simp add: cleanup_def)

text \<open>
  An ingest that leaves the buffer below \<open>MAX_GROUP_SIZE\<close> replaces whatever timer was
  pending by one that is due a whole delay after this ingest.
\<close>

lemma processMessage_restarts_timer:
  assumes "length (bufOf st (uid, chatIdOf m)) + 1 < MAX_GROUP_SIZE"
  shows "processingTimers (fst (processMessage now m uid st)) (uid, chatIdOf m) = Some (now + GROUP_DELAY_MS)"
    and "snd (processMessage now m uid st) = None"
  using assms by (simp_all add: processMessage_def bufOf_def Let_def split: option.splits)

lemma fireDue_props:
  assumes inv: "bufInv uid cid sa" and res: "fireDue t uid cid sa = (sa', fs)"
  shows "bufInv uid cid sa' \<and> (\<forall>x\<in>set fs. outcomeOk x)
      \<and> concat (map pairsOf fs) @ zip (snd sa') (bufOf (fst sa') (uid, cid))
          = zip (snd sa) (bufOf (fst sa) (uid, cid))
      \<and> (\<forall>due. processingTimers (fst sa') (uid, cid) = Some due \<longrightarrow> t < due)
      \<and> (processingTimers (fst sa) (uid, cid) = Some t \<longrightarrow> processingTimers (fst sa') (uid, cid) = None)"
proof (cases "processingTimers (fst sa) (uid, cid)")
  case None
  with res have "sa' = sa" "fs = []" by (simp_all add: fireDue_def)
  with inv None show ?thesis by simp
next
  case (Some due)
  show ?thesis
  proof (cases "due \<le> t")
    case False
    with res Some have "sa' = sa" "fs = []" by (simp_all add: fireDue_def)
    with inv Some False show ?thesis by simp
  next
    case True
    from inv have len: "length (snd sa) = length (bufOf (fst sa) (uid, cid))"
      and lt: "length (snd sa) < MAX_GROUP_SIZE"
      unfolding bufInv_def by auto
    show ?thesis
    proof (cases "snd sa = []")
      case e: True
      with len have be: "bufOf (fst sa) (uid, cid) = []" by simp
      from res Some True flushBuffer_empty [OF be]
      have sa': "sa' = ((fst sa)\<lparr> processingTimers := (processingTimers (fst sa))((uid, cid) := None) \<rparr>, snd sa)"
        and fs: "fs = []"
        by (simp_all add: fireDue_def)
      have i': "bufInv uid cid sa'"
        unfolding sa' using e be by (simp add: bufInv_def bufOf_def MAX_GROUP_SIZE_def)
      show ?thesis using i' unfolding fs by (simp add: sa' bufOf_def)
    next
      case ne: False
      from inv Some ne have d1: "due = last (snd sa) + GROUP_DELAY_MS"
        and d2: "due \<le> hd (snd sa) + int (length (snd sa)) * GROUP_DELAY_MS"
        unfolding bufInv_def by auto
      from ne len have bne: "bufOf (fst sa) (uid, cid) \<noteq> []" by auto
      from res Some True flushBuffer_nonempty [OF bne]
      have sa': "sa' = ((fst sa)\<lparr> processingTimers := (processingTimers (fst sa))((uid, cid) := None),
                 messageBuffer := (messageBuffer (fst sa))((uid, cid) \<mapsto> []) \<rparr>, [])"
        and fs: "fs = [Flushed \<lparr> flushedAt = due, arrived = snd sa, batch = bufOf (fst sa) (uid, cid) \<rparr>]"
        by (simp_all add: fireDue_def)
      have "int (length (snd sa)) * GROUP_DELAY_MS \<le> (int MAX_GROUP_SIZE - 1) * GROUP_DELAY_MS"
        using lt by (simp add: GROUP_DELAY_MS_def MAX_GROUP_SIZE_def)
      with d2 have d3: "due \<le> hd (snd sa) + (int MAX_GROUP_SIZE - 1) * GROUP_DELAY_MS" by linarith
      have ok: "flushOk \<lparr> flushedAt = due, arrived = snd sa, batch = bufOf (fst sa) (uid, cid) \<rparr>"
        using ne len lt d1 d3 by (simp add: flushOk_def)
      have i': "bufInv uid cid sa'"
        unfolding sa' by (simp add: bufInv_def bufOf_def MAX_GROUP_SIZE_def)
      show ?thesis using ok i' unfolding fs by (simp add: sa' bufOf_def)
    qed
  qed
qed

lemma pending_bound:
  assumes inv: "bufInv uid cid sa" and ne: "snd sa \<noteq> []"
    and fresh: "\<forall>due. processingTimers (fst sa) (uid, cid) = Some due \<longrightarrow> t < due"
  shows "t < hd (snd sa) + int (length (snd sa)) * GROUP_DELAY_MS"
proof -
  from inv ne obtain due where due: "processingTimers (fst sa) (uid, cid) = Some due"
    by (cases "processingTimers (fst sa) (uid, cid)") (auto simp: bufInv_def)
  with inv ne have "due \<le> hd (snd sa) + int (length (snd sa)) * GROUP_DELAY_MS"
    unfolding bufInv_def by auto
  moreover from fresh due have "t < due" by simp
  ultimately show ?thesis by linarith
qed

lemma ingestAt_props:
  assumes inv: "bufInv uid cid sa" and cid: "chatIdOf m = cid"
    and fresh: "\<forall>due. processingTimers (fst sa) (uid, cid) = Some due \<longrightarrow> t < due"
    and res: "ingestAt t m uid sa = (sa', fs)"
  shows "bufInv uid cid sa' \<and> (\<forall>x\<in>set fs. outcomeOk x)
      \<and> concat (map pairsOf fs) @ zip (snd sa') (bufOf (fst sa') (uid, cid))
          = zip (snd sa) (bufOf (fst sa) (uid, cid)) @ [(t, m)]"
proof -
  let ?k = "(uid, cid)"
  let ?st = "fst sa"
  let ?buf = "bufOf ?st ?k @ [m]"
  let ?st1 = "?st\<lparr> messageBuffer := (messageBuffer ?st)(?k \<mapsto> ?buf),
                    processingTimers := (processingTimers ?st)(?k := None) \<rparr>"
  from inv have len: "length (snd sa) = length (bufOf ?st ?k)" and lt: "length (snd sa) < MAX_GROUP_SIZE"
    by (simp_all add: bufInv_def)
  note bound = pending_bound [OF inv _ fresh]
  have z: "zip (snd sa @ [t]) ?buf = zip (snd sa) (bufOf ?st ?k) @ [(t, m)]"
    using len by simp
  show ?thesis
  proof (cases "length ?buf \<ge> MAX_GROUP_SIZE")
    case True
    have bne: "bufOf ?st1 ?k \<noteq> []" by (simp add: bufOf_def)
    have pm: "processMessage t m uid ?st = flushBuffer uid cid ?st1"
      using True cid by (simp add: processMessage_def Let_def bufOf_def)
    from res pm flushBuffer_nonempty [OF bne]
    have sa': "sa' = (?st1\<lparr> processingTimers := (processingTimers ?st1)(?k := None),
                 messageBuffer := (messageBuffer ?st1)(?k \<mapsto> []) \<rparr>, [])"
      and fs: "fs = [Flushed \<lparr> flushedAt = t, arrived = snd sa @ [t], batch = ?buf \<rparr>]"
      by (simp_all add: ingestAt_def bufOf_def)
    from True len lt have l4: "length (snd sa) + 1 = MAX_GROUP_SIZE" by simp
    then have ne: "snd sa \<noteq> []" by (auto simp: MAX_GROUP_SIZE_def)
    from bound [OF ne] l4 have "t \<le> hd (snd sa) + (int MAX_GROUP_SIZE - 1) * GROUP_DELAY_MS"
      by (simp add: MAX_GROUP_SIZE_def)
    then have ok: "flushOk \<lparr> flushedAt = t, arrived = snd sa @ [t], batch = ?buf \<rparr>"
      using len l4 ne by (simp add: flushOk_def)
    have i': "bufInv uid cid sa'" unfolding sa' by (simp add: bufInv_def bufOf_def MAX_GROUP_SIZE_def)
    show ?thesis using ok i' z unfolding fs by (simp add: sa' bufOf_def)
  next
    case False
    have pm: "processMessage t m uid ?st
        = (?st1\<lparr> processingTimers := (processingTimers ?st1)(?k \<mapsto> t + GROUP_DELAY_MS) \<rparr>, None)"
      using False cid by (simp add: processMessage_def Let_def bufOf_def)
    from res pm
    have sa': "sa' = (?st1\<lparr> processingTimers := (processingTimers ?st1)(?k \<mapsto> t + GROUP_DELAY_MS) \<rparr>, snd sa @ [t])"
      and fs: "fs = []"
      by (simp_all add: ingestAt_def)
    have hdb: "t + GROUP_DELAY_MS \<le> hd (snd sa @ [t]) + int (length (snd sa @ [t])) * GROUP_DELAY_MS"
    proof (cases "snd sa = []")
      case True
      then show ?thesis by simp
    next
      case ne: False
      from bound [OF ne] ne show ?thesis by (simp add: algebra_simps)
    qed
    have i': "bufInv uid cid sa'"
      unfolding sa' using False len hdb by (simp add: bufInv_def bufOf_def)
    show ?thesis using i' z unfolding fs by (simp add: sa' bufOf_def)
  qed
qed

lemma sweepAt_props:
  assumes inv: "bufInv uid cid sa"
    and fresh: "\<forall>due. processingTimers (fst sa) (uid, cid) = Some due \<longrightarrow> t < due"
    and res: "sweepAt t uid cid sa = (sa', fs)"
  shows "bufInv uid cid sa' \<and> (\<forall>x\<in>set fs. outcomeOk x)
      \<and> concat (map pairsOf fs) @ zip (snd sa') (bufOf (fst sa') (uid, cid))
          = zip (snd sa) (bufOf (fst sa) (uid, cid))"
proof (cases "messageBuffer (fst sa) (uid, cid)")
  case None
  then have c: "messageBuffer (cleanup t (fst sa)) (uid, cid) = None" by (rule cleanup_absent)
  from res None have sa': "sa' = (cleanup t (fst sa), snd sa)" and fs: "fs = []"
    by (simp_all add: sweepAt_def)
  have "bufInv uid cid sa'"
    using inv None c unfolding sa'
    by (auto simp: bufInv_def bufOf_def cleanup_timers split: option.splits)
  then show ?thesis using None c unfolding fs sa' by (simp add: bufOf_def)
next
  case (Some messages)
  show ?thesis
  proof (cases "messageBuffer (cleanup t (fst sa)) (uid, cid)")
    case kept: (Some kept)
    from cleanup_keeps [OF kept] Some have k: "kept = messages" by simp
    from res Some kept have sa': "sa' = (cleanup t (fst sa), snd sa)" and fs: "fs = []"
      by (simp_all add: sweepAt_def)
    have "bufInv uid cid sa'"
      using inv Some kept k unfolding sa'
      by (auto simp: bufInv_def bufOf_def cleanup_timers split: option.splits)
    then show ?thesis using Some kept k unfolding fs sa' by (simp add: bufOf_def)
  next
    case None
    from cleanup_deletes [OF Some None]
    have mne: "messages \<noteq> []" and old: "t - timestamp (hd messages) * 1000 > cleanupThreshold"
      by simp_all
    from res Some None have sa': "sa' = (cleanup t (fst sa), [])"
      and fs: "fs = [Dropped \<lparr> droppedAt = t, lostArrivals = snd sa, lost = messages \<rparr>]"
      by (simp_all add: sweepAt_def)
    from Some have b: "bufOf (fst sa) (uid, cid) = messages" by (simp add: bufOf_def)
    from inv b have len: "length (snd sa) = length messages" and lt: "length (snd sa) < MAX_GROUP_SIZE"
      unfolding bufInv_def by auto
    from len mne have ne: "snd sa \<noteq> []" by auto
    have "int (length (snd sa)) * GROUP_DELAY_MS \<le> (int MAX_GROUP_SIZE - 1) * GROUP_DELAY_MS"
      using lt by (simp add: GROUP_DELAY_MS_def MAX_GROUP_SIZE_def)
    with pending_bound [OF inv ne fresh]
    have "t < hd (snd sa) + (int MAX_GROUP_SIZE - 1) * GROUP_DELAY_MS" by linarith
    then have ok: "dropOk \<lparr> droppedAt = t, lostArrivals = snd sa, lost = messages \<rparr>"
      using ne len old by (simp add: dropOk_def)
    have i': "bufInv uid cid sa'"
      unfolding sa' using None
      by (simp add: bufInv_def bufOf_def cleanup_timers MAX_GROUP_SIZE_def split: option.splits)
    show ?thesis using ok i' b None unfolding fs sa' by (simp add: bufOf_def)
  qed
qed

lemma runBuffer_props:
  assumes "bufInv uid cid sa" and "\<forall>p\<in>set (arrivalsOf evs). chatIdOf (snd p) = cid"
  shows "(\<forall>x\<in>set (runBuffer uid cid sa evs). outcomeOk x)
     \<and> concat (map pairsOf (runBuffer uid cid sa evs))
         = zip (snd sa) (bufOf (fst sa) (uid, cid)) @ arrivalsOf evs"
  using assms
proof (induction evs arbitrary: sa)
  case Nil
  show ?case
  proof (cases "processingTimers (fst sa) (uid, cid)")
    case None
    with Nil.prems(1) have "snd sa = []" by (auto simp: bufInv_def)
    with None show ?thesis by simp
  next
    case (Some due)
    obtain sa' fs where r: "fireDue due uid cid sa = (sa', fs)" by (cases "fireDue due uid cid sa")
    note p = fireDue_props [OF Nil.prems(1) r]
    from p Some have "processingTimers (fst sa') (uid, cid) = None" by simp
    with p have e: "snd sa' = []" by (auto simp: bufInv_def)
    from p e Some r show ?thesis by simp
  qed
next
  case (Cons ev evs)
  show ?case
  proof (cases ev)
    case (Arrive t m)
    obtain sa1 f1 where r1: "fireDue t uid cid sa = (sa1, f1)" by (cases "fireDue t uid cid sa")
    obtain sa2 f2 where r2: "ingestAt t m uid sa1 = (sa2, f2)" by (cases "ingestAt t m uid sa1")
    note p1 = fireDue_props [OF Cons.prems(1) r1]
    from Cons.prems(2) Arrive have cid: "chatIdOf m = cid" by simp
    from p1 have i1: "bufInv uid cid sa1"
      and fresh: "\<forall>due. processingTimers (fst sa1) (uid, cid) = Some due \<longrightarrow> t < due" by simp_all
    note p2 = ingestAt_props [OF i1 cid fresh r2]
    from Cons.prems(2) Arrive have rest: "\<forall>p\<in>set (arrivalsOf evs). chatIdOf (snd p) = cid" by simp
    from p2 have i2: "bufInv uid cid sa2" by simp
    note ih = Cons.IH [OF i2 rest]
    have run: "runBuffer uid cid sa (ev # evs) = f1 @ f2 @ runBuffer uid cid sa2 evs"
      by (simp add: Arrive r1 r2)
    have a: "\<forall>x\<in>set (runBuffer uid cid sa (ev # evs)). outcomeOk x"
      unfolding run using p1 p2 ih by auto
    have "concat (map pairsOf (runBuffer uid cid sa (ev # evs)))
        = concat (map pairsOf f1)
          @ (concat (map pairsOf f2) @ zip (snd sa2) (bufOf (fst sa2) (uid, cid))) @ arrivalsOf evs"
      unfolding run using ih by simp
    also have "\<dots> = (concat (map pairsOf f1) @ zip (snd sa1) (bufOf (fst sa1) (uid, cid)))
          @ [(t, m)] @ arrivalsOf evs"
      using p2 by simp
    also have "\<dots> = zip (snd sa) (bufOf (fst sa) (uid, cid)) @ arrivalsOf (ev # evs)"
      using p1 Arrive by simp
    finally show ?thesis using a by blast
  next
    case (Sweep t)
    obtain sa1 f1 where r1: "fireDue t uid cid sa = (sa1, f1)" by (cases "fireDue t uid cid sa")
    obtain sa2 f2 where r2: "sweepAt t uid cid sa1 = (sa2, f2)" by (cases "sweepAt t uid cid sa1")
    note p1 = fireDue_props [OF Cons.prems(1) r1]
    from p1 have i1: "bufInv uid cid sa1"
      and fresh: "\<forall>due. processingTimers (fst sa1) (uid, cid) = Some due \<longrightarrow> t < due" by simp_all
    note p2 = sweepAt_props [OF i1 fresh r2]
    from Cons.prems(2) Sweep have rest: "\<forall>p\<in>set (arrivalsOf evs). chatIdOf (snd p) = cid" by simp
    from p2 have i2: "bufInv uid cid sa2" by simp
    note ih = Cons.IH [OF i2 rest]
    have run: "runBuffer uid cid sa (ev # evs) = f1 @ f2 @ runBuffer uid cid sa2 evs"
      by (simp add: Sweep r1 r2)
    have a: "\<forall>x\<in>set (runBuffer uid cid sa (ev # evs)). outcomeOk x"
      unfolding run using p1 p2 ih by auto
    have "concat (map pairsOf (runBuffer uid cid sa (ev # evs)))
        = concat (map pairsOf f1)
          @ (concat (map pairsOf f2) @ zip (snd sa2) (bufOf (fst sa2) (uid, cid))) @ arrivalsOf evs"
      unfolding run using ih by simp
    also have "\<dots> = (concat (map pairsOf f1) @ zip (snd sa1) (bufOf (fst sa1) (uid, cid)))
          @ arrivalsOf evs"
      using p2 by simp
    also have "\<dots> = zip (snd sa) (bufOf (fst sa) (uid, cid)) @ arrivalsOf (ev # evs)"
      using p1 Sweep by simp
    finally show ?thesis using a by blast
  qed
qed

lemma bufInv_empty: "bufInv uid cid (emptyBuffers, [])"
  by (simp add: bufInv_def bufOf_def emptyBuffers_def MAX_GROUP_SIZE_def)

lemma flushesOf_mem: "f \<in> set (flushesOf os) \<longleftrightarrow> Flushed f \<in> set os"
  by (induction os rule: flushesOf.induct) auto

lemma dropsOf_mem: "d \<in> set (dropsOf os) \<longleftrightarrow> Dropped d \<in> set os"
  by (induction os rule: dropsOf.induct) auto

lemma drop_head_arrived:
  assumes "Dropped d \<in> set os" "dropOk d"
  shows "(hd (lostArrivals d), hd (lost d)) \<in> set (concat (map pairsOf os))"
proof -
  from assms(2) have "lostArrivals d \<noteq> []" "lost d \<noteq> []" by (auto simp: dropOk_def)
  then have "(hd (lostArrivals d), hd (lost d)) \<in> set (zip (lostArrivals d) (lost d))"
    by (cases "lostArrivals d"; cases "lost d") auto
  with assms(1) show ?thesis by force
qed

text \<open>
  Two messages arrive ten seconds apart. The second ingest cancels the timer that was due
  at 15000 and starts one due at 25000: the only flush happens 25 seconds after the first
  message, later than the configured delay of 15 seconds.
\<close>

theorem later_ingest_restarts_timer:
  "runBuffer 7 ''60123456789'' (emptyBuffers, []) twoArrivals
     = [Flushed \<lparr> flushedAt = 25000, arrived = [0, 10000],
                  batch = [exampleMessage ''m1'' ''hello'' 1700000000 False,
                           exampleMessage ''m2'' ''again'' 1700000010 False] \<rparr>]
   \<and> \<not> (25000 \<le> 0 + GROUP_DELAY_MS)"
  by (simp add: twoArrivals_def fireDue_def ingestAt_def processMessage_def flushBuffer_def
      emptyBuffers_def chatIdOf_def exampleMessage_def MAX_GROUP_SIZE_def GROUP_DELAY_MS_def Let_def)

text \<open>
  A message that was sent three hours before it arrives is swept away five seconds after
  its arrival; the timer, due ten seconds later, finds no buffer, and nothing is flushed.
\<close>

lemma sweep_drops_pending_buffer:
  "runBuffer 7 ''60123456789'' (emptyBuffers, []) staleArrival
     = [Dropped \<lparr> droppedAt = 1700010805000, lostArrivals = [1700010800000],
                  lost = [exampleMessage ''m3'' ''late'' 1700000000 False] \<rparr>]"
  by (simp add: staleArrival_def fireDue_def ingestAt_def sweepAt_def cleanup_def cleanupThreshold_def
      processMessage_def flushBuffer_def emptyBuffers_def chatIdOf_def exampleMessage_def
      MAX_GROUP_SIZE_def GROUP_DELAY_MS_def Let_def)

text \<open>
  C1, amended. Every ingest that leaves the buffer below \<open>MAX_GROUP_SIZE\<close> cancels
  whatever timer is pending and starts a new one for the whole delay; the ingest that fills
  the buffer flushes it at once. So, for the arrivals of one conversation and any sweeps of
  the periodic cleanup between them: a flush hands over at most \<open>MAX_GROUP_SIZE\<close>
  messages and happens exactly one configured delay after the most recently ingested of
  them (at its arrival, when the batch is full), hence within
  \<open>(MAX_GROUP_SIZE - 1) * delay\<close> of the first unflushed message, not within one delay.
  Every message is handed over by exactly one flush, in arrival order, unless a sweep
  deleted its buffer first; a sweep does so only when the first pending message was sent
  more than an hour before the sweep. When every message arrives within an hour less
  \<open>(MAX_GROUP_SIZE - 1) * delay\<close> of being sent, no message is dropped.
\<close>

theorem flush_within_delay_of_last_ingest:
  assumes "\<forall>p\<in>set (arrivalsOf evs). chatIdOf (snd p) = cid"
  shows "(\<forall>f\<in>set (flushesOf (runBuffer uid cid (emptyBuffers, []) evs)).
            arrived f \<noteq> [] \<and> length (batch f) = length (arrived f)
            \<and> length (batch f) \<le> MAX_GROUP_SIZE
            \<and> flushedAt f = (if length (batch f) = MAX_GROUP_SIZE then last (arrived f)
                             else last (arrived f) + GROUP_DELAY_MS)
            \<and> flushedAt f \<le> hd (arrived f) + (int MAX_GROUP_SIZE - 1) * GROUP_DELAY_MS)
     \<and> (\<forall>d\<in>set (dropsOf (runBuffer uid cid (emptyBuffers, []) evs)).
            lostArrivals d \<noteq> [] \<and> length (lost d) = length (lostArrivals d)
            \<and> droppedAt d - timestamp (hd (lost d)) * 1000 > cleanupThreshold
            \<and> droppedAt d < hd (lostArrivals d) + (int MAX_GROUP_SIZE - 1) * GROUP_DELAY_MS)
     \<and> concat (map pairsOf (runBuffer uid cid (emptyBuffers, []) evs)) = arrivalsOf evs
     \<and> ((\<forall>p\<in>set (arrivalsOf evs).
            fst p - timestamp (snd p) * 1000 \<le> cleanupThreshold - (int MAX_GROUP_SIZE - 1) * GROUP_DELAY_MS)
         \<longrightarrow> dropsOf (runBuffer uid cid (emptyBuffers, []) evs) = [])
     \<and> (length (bufOf st (u, chatIdOf m)) + 1 < MAX_GROUP_SIZE \<longrightarrow>
           processingTimers (fst (processMessage now m u st)) (u, chatIdOf m) = Some (now + GROUP_DELAY_MS)
           \<and> snd (processMessage now m u st) = None)"
proof -
  let ?run = "runBuffer uid cid (emptyBuffers, []) evs"
  have e: "zip (snd (emptyBuffers, ([] :: int list))) (bufOf (fst (emptyBuffers, [])) (uid, cid)) = []"
    by simp
  from runBuffer_props [OF bufInv_empty assms, of uid] e
  have ok: "\<forall>x\<in>set ?run. outcomeOk x" and all: "concat (map pairsOf ?run) = arrivalsOf evs"
    by simp_all
  have fl: "\<forall>f\<in>set (flushesOf ?run). flushOk f"
  proof
    fix f assume "f \<in> set (flushesOf ?run)"
    then have "Flushed f \<in> set ?run" by (simp add: flushesOf_mem)
    with ok have "outcomeOk (Flushed f)" by blast
    then show "flushOk f" by simp
  qed
  have dr: "\<forall>d\<in>set (dropsOf ?run). dropOk d"
  proof
    fix d assume "d \<in> set (dropsOf ?run)"
    then have "Dropped d \<in> set ?run" by (simp add: dropsOf_mem)
    with ok have "outcomeOk (Dropped d)" by blast
    then show "dropOk d" by simp
  qed
  have none: "(\<forall>p\<in>set (arrivalsOf evs).
            fst p - timestamp (snd p) * 1000 \<le> cleanupThreshold - (int MAX_GROUP_SIZE - 1) * GROUP_DELAY_MS)
         \<longrightarrow> dropsOf ?run = []"
  proof
    assume fresh: "\<forall>p\<in>set (arrivalsOf evs).
            fst p - timestamp (snd p) * 1000 \<le> cleanupThreshold - (int MAX_GROUP_SIZE - 1) * GROUP_DELAY_MS"
    show "dropsOf ?run = []"
    proof (rule ccontr)
      assume "dropsOf ?run \<noteq> []"
      then obtain d where d: "d \<in> set (dropsOf ?run)" by (cases "dropsOf ?run") auto
      with dr have dok: "dropOk d" by blast
      from d have "Dropped d \<in> set ?run" by (simp add: dropsOf_mem)
      from drop_head_arrived [OF this dok] all
      have "(hd (lostArrivals d), hd (lost d)) \<in> set (arrivalsOf evs)" by simp
      with fresh have "hd (lostArrivals d) - timestamp (hd (lost d)) * 1000
          \<le> cleanupThreshold - (int MAX_GROUP_SIZE - 1) * GROUP_DELAY_MS" by fastforce
      moreover from dok have "droppedAt d - timestamp (hd (lost d)) * 1000 > cleanupThreshold"
        and "droppedAt d < hd (lostArrivals d) + (int MAX_GROUP_SIZE - 1) * GROUP_DELAY_MS"
        by (simp_all add: dropOk_def)
      ultimately show False by linarith
    qed
  qed
  have restart: "length (bufOf st (u, chatIdOf m)) + 1 < MAX_GROUP_SIZE \<longrightarrow>
           processingTimers (fst (processMessage now m u st)) (u, chatIdOf m) = Some (now + GROUP_DELAY_MS)
           \<and> snd (processMessage now m u st) = None"
    using processMessage_restarts_timer [of st u m now] by blast
  from fl dr all none restart show ?thesis unfolding flushOk_def dropOk_def by blast
qed

text \<open>
  Two messages ten seconds apart and a sweep before the timer is due: one flush, one delay
  after the second arrival and 25 seconds after the first; the first ingest starts a timer
  for the whole delay, which the second replaces.
\<close>

theorem flush_within_delay_of_last_ingest_witness:
  "arrivalsOf freshTrace
     = [(1700000001000, exampleMessage ''m1'' ''hello'' 1700000000 False),
        (1700000011000, exampleMessage ''m2'' ''again'' 1700000010 False)]
   \<and> chatIdOf (exampleMessage ''m1'' ''hello'' 1700000000 False) = ''60123456789''
   \<and> chatIdOf (exampleMessage ''m2'' ''again'' 1700000010 False) = ''60123456789''
   \<and> runBuffer 7 ''60123456789'' (emptyBuffers, []) freshTrace
       = [Flushed \<lparr> flushedAt = 1700000026000, arrived = [1700000001000, 1700000011000],
                    batch = [exampleMessage ''m1'' ''hello'' 1700000000 False,
                             exampleMessage ''m2'' ''again'' 1700000010 False] \<rparr>]
   \<and> dropsOf (runBuffer 7 ''60123456789'' (emptyBuffers, []) freshTrace) = []
   \<and> length (bufOf emptyBuffers (7, chatIdOf (exampleMessage ''m1'' ''hello'' 1700000000 False))) + 1
       < MAX_GROUP_SIZE
   \<and> processingTimers
        (fst (processMessage 1700000001000 (exampleMessage ''m1'' ''hello'' 1700000000 False) 7 emptyBuffers))
        (7, chatIdOf (exampleMessage ''m1'' ''hello'' 1700000000 False))
       = Some (1700000001000 + GROUP_DELAY_MS)"
proof -
  have a: "arrivalsOf freshTrace
     = [(1700000001000, exampleMessage ''m1'' ''hello'' 1700000000 False),
        (1700000011000, exampleMessage ''m2'' ''again'' 1700000010 False)]"
    by (simp add: freshTrace_def)
  have c: "chatIdOf (exampleMessage ''m1'' ''hello'' 1700000000 False) = ''60123456789''"
    "chatIdOf (exampleMessage ''m2'' ''again'' 1700000010 False) = ''60123456789''"
    by (simp_all add: chatIdOf_def exampleMessage_def)
  have h: "\<forall>p\<in>set (arrivalsOf freshTrace). chatIdOf (snd p) = ''60123456789''"
    by (simp add: a c)
  have r: "runBuffer 7 ''60123456789'' (emptyBuffers, []) freshTrace
       = [Flushed \<lparr> flushedAt = 1700000026000, arrived = [1700000001000, 1700000011000],
                    batch = [exampleMessage ''m1'' ''hello'' 1700000000 False,
                             exampleMessage ''m2'' ''again'' 1700000010 False] \<rparr>]"
    by (simp add: freshTrace_def fireDue_def ingestAt_def sweepAt_def cleanup_def cleanupThreshold_def
      processMessage_def flushBuffer_def emptyBuffers_def chatIdOf_def exampleMessage_def
      MAX_GROUP_SIZE_def GROUP_DELAY_MS_def Let_def)
  have fr: "\<forall>p\<in>set (arrivalsOf freshTrace).
            fst p - timestamp (snd p) * 1000 \<le> cleanupThreshold - (int MAX_GROUP_SIZE - 1) * GROUP_DELAY_MS"
    by (simp add: a exampleMessage_def cleanupThreshold_def MAX_GROUP_SIZE_def GROUP_DELAY_MS_def)
  have l: "length (bufOf emptyBuffers (7, chatIdOf (exampleMessage ''m1'' ''hello'' 1700000000 False))) + 1
       < MAX_GROUP_SIZE"
    by (simp add: bufOf_def emptyBuffers_def MAX_GROUP_SIZE_def)
  note t = flush_within_delay_of_last_ingest [OF h, of 7 emptyBuffers 7
      "exampleMessage ''m1'' ''hello'' 1700000000 False" 1700000001000]
  from t fr have d: "dropsOf (runBuffer 7 ''60123456789'' (emptyBuffers, []) freshTrace) = []" by blast
  from t l have p: "processingTimers
        (fst (processMessage 1700000001000 (exampleMessage ''m1'' ''hello'' 1700000000 False) 7 emptyBuffers))
        (7, chatIdOf (exampleMessage ''m1'' ''hello'' 1700000000 False))
       = Some (1700000001000 + GROUP_DELAY_MS)" by blast
  from a c r d l p show ?thesis by blast
qed

subsection \<open>Runs of a batch\<close>

text \<open>The key that the loop computes is the grouping key of the specification.\<close>

lemma senderKey_groupingKey:
  "senderKey m = groupingKey (isGroup m) (fromMe m) (fromName m) (from_msg m)"
  by (cases "isGroup m"; cases "fromMe m") (simp_all add: senderKey_def)

lemma startsNewRun_senderKey:
  "startsNewRun prev m \<longleftrightarrow>
     senderKey m \<noteq> senderKey prev \<or> timestamp m * 1000 - timestamp prev * 1000 \<ge> 300000"
  by (simp add: startsNewRun_def senderKey_groupingKey)

lemma runsOf_nonempty: "runsOf (x # xs) \<noteq> []"
  by (induction xs arbitrary: x) (auto split: list.splits)

lemma concat_runsOf: "concat (runsOf xs) = xs"
  by (induction xs rule: runsOf.induct) (auto split: list.splits simp: runsOf_nonempty)

lemma runsOf_no_empty_run: "r \<in> set (runsOf xs) \<Longrightarrow> r \<noteq> []"
  by (induction xs arbitrary: r rule: runsOf.induct) (auto split: list.splits if_splits)

lemma hd_hd_runsOf: "hd (hd (runsOf (x # xs))) = x"
  by (cases xs) (auto split: list.splits)

lemma runsOf_within:
  "r \<in> set (runsOf xs) \<Longrightarrow> successively (\<lambda>p m. \<not> startsNewRun p m) r"
proof (induction xs arbitrary: r rule: runsOf.induct)
  case 1
  then show ?case by simp
next
  case (2 m)
  then show ?case by simp
next
  case (3 prev m ms)
  show ?case
  proof (cases "startsNewRun prev m")
    case True
    with 3 show ?thesis by auto
  next
    case False
    obtain r0 rs where rr: "runsOf (m # ms) = r0 # rs"
      using runsOf_nonempty [of m ms] by (cases "runsOf (m # ms)") auto
    have hd0: "hd r0 = m" using hd_hd_runsOf [of m ms] rr by simp
    have ne0: "r0 \<noteq> []" using runsOf_no_empty_run [of r0 "m # ms"] rr by simp
    from False rr "3.prems" have "r = prev # r0 \<or> r \<in> set rs" by auto
    then show ?thesis
    proof
      assume r: "r = prev # r0"
      have "successively (\<lambda>p m. \<not> startsNewRun p m) r0"
        using "3.IH"(2) [OF False, of r0] rr by simp
      with ne0 hd0 False show ?thesis unfolding r by (cases r0) auto
    next
      assume "r \<in> set rs"
      then show ?thesis using "3.IH"(2) [OF False, of r] rr by simp
    qed
  qed
qed

lemma runsOf_between:
  "successively (\<lambda>r1 r2. startsNewRun (last r1) (hd r2)) (runsOf xs)"
proof (induction xs rule: runsOf.induct)
  case 1
  show ?case by simp
next
  case (2 m)
  show ?case by simp
next
  case (3 prev m ms)
  obtain r0 rs where rr: "runsOf (m # ms) = r0 # rs"
    using runsOf_nonempty [of m ms] by (cases "runsOf (m # ms)") auto
  have hd0: "hd r0 = m" using hd_hd_runsOf [of m ms] rr by simp
  have ne0: "r0 \<noteq> []" using runsOf_no_empty_run [of r0 "m # ms"] rr by simp
  show ?case
  proof (cases "startsNewRun prev m")
    case True
    with "3.IH"(1) rr hd0 show ?thesis by simp
  next
    case False
    with "3.IH"(2) rr ne0 show ?thesis by (cases rs) auto
  qed
qed

lemma sorted_concat_part:
  "sorted (map f (concat xss)) \<Longrightarrow> r \<in> set xss \<Longrightarrow> sorted (map f r)"
  by (induction xss) (auto simp: sorted_append)

lemma groupLoop_runsOf:
  "\<forall>m\<in>set (l # ms). timestamp m \<noteq> 0 \<Longrightarrow>
   groupFinish (foldl groupStep (gs, pre @ [l], Some (senderKey l), Some (timestamp l * 1000)) ms)
     = gs @ (case runsOf (l # ms) of [] \<Rightarrow> [] | r # rs \<Rightarrow> (pre @ r) # rs)"
proof (induction ms arbitrary: gs pre l)
  case Nil
  show ?case by (simp add: groupFinish_def)
next
  case (Cons m ms)
  have nz: "timestamp l * 1000 \<noteq> 0" using Cons.prems by simp
  have rest: "\<forall>x\<in>set (m # ms). timestamp x \<noteq> 0" using Cons.prems by simp
  obtain r0 rs where rr: "runsOf (m # ms) = r0 # rs"
    using runsOf_nonempty [of m ms] by (cases "runsOf (m # ms)") auto
  show ?case
  proof (cases "startsNewRun l m")
    case True
    then have step: "groupStep (gs, pre @ [l], Some (senderKey l), Some (timestamp l * 1000)) m
        = (gs @ [pre @ [l]], [] @ [m], Some (senderKey m), Some (timestamp m * 1000))"
      using nz by (auto simp: groupStep_def startsNewRun_senderKey Let_def)
    show ?thesis
      using Cons.IH [OF rest, of "gs @ [pre @ [l]]" "[]"] True rr by (simp add: step)
  next
    case False
    then have key: "senderKey m = senderKey l" by (simp add: startsNewRun_senderKey)
    from False have step: "groupStep (gs, pre @ [l], Some (senderKey l), Some (timestamp l * 1000)) m
        = (gs, (pre @ [l]) @ [m], Some (senderKey m), Some (timestamp m * 1000))"
      using nz by (auto simp: groupStep_def startsNewRun_senderKey Let_def)
    show ?thesis
      using Cons.IH [OF rest, of gs "pre @ [l]"] False rr by (simp add: step)
  qed
qed

lemma groupMessages_runsOf:
  assumes "\<forall>m\<in>set messages. timestamp m \<noteq> 0"
  shows "groupMessagesByTimeAndSender messages = runsOf (sort_key timestamp messages)"
proof (cases "sort_key timestamp messages")
  case Nil
  then show ?thesis by (simp add: groupMessagesByTimeAndSender_def groupFinish_def)
next
  case (Cons l ms)
  have "set (l # ms) = set messages" using Cons [symmetric] by simp
  with assms have nz: "\<forall>m\<in>set (l # ms). timestamp m \<noteq> 0" by blast
  have first: "groupStep ([], [], None, None) l = ([], [] @ [l], Some (senderKey l), Some (timestamp l * 1000))"
    by (simp add: groupStep_def Let_def)
  have "groupMessagesByTimeAndSender messages
      = groupFinish (foldl groupStep ([], [] @ [l], Some (senderKey l), Some (timestamp l * 1000)) ms)"
    by (simp add: groupMessagesByTimeAndSender_def Cons first)
  also have "\<dots> = [] @ (case runsOf (l # ms) of [] \<Rightarrow> [] | r # rs \<Rightarrow> ([] @ r) # rs)"
    by (rule groupLoop_runsOf [OF nz])
  also have "\<dots> = runsOf (l # ms)" by (simp split: list.splits)
  finally show ?thesis by (simp add: Cons)
qed

text \<open>
  The test \<open>currentTime ? messageTime - currentTime : 0\<close> reads a previous time of
  \<open>0\<close> as no previous time: after a message with timestamp \<open>0\<close> the gap is not
  measured. \<open>sessionManager.js\<close> builds every message with
  \<open>timestamp: message.timestamp || Date.now()\<close>, so no message with timestamp \<open>0\<close>
  reaches the buffer.
\<close>

lemma gap_unmeasured_after_timestamp_zero:
  "groupMessagesByTimeAndSender [exampleMessage ''m1'' ''a'' 0 False, exampleMessage ''m2'' ''b'' 600 False]
     = [[exampleMessage ''m1'' ''a'' 0 False, exampleMessage ''m2'' ''b'' 600 False]]"
  by code_simp

text \<open>
  C4. For every flushed batch (its messages carry the non-zero timestamps that
  \<open>sessionManager.js\<close> gives them), the runs of \<open>groupMessagesByTimeAndSender\<close>
  partition the batch exactly: their concatenation is the batch sorted by timestamp
  (stably), so it holds every message of the batch exactly once. Every run is non-empty and
  ordered by timestamp ascending. The grouping key that the loop compares is \<open>me\<close> for a
  message of the owner in a group conversation, \<open>other_\<close> followed by the display name
  for any other message in a group conversation, and the raw sender id in a one-to-one
  conversation. A new run starts exactly when this key changes or the gap to the previous
  message reaches 300000 ms: inside a run no message starts a new run after its
  predecessor, and the first message of every later run does so after the last message of
  the run before.
\<close>

theorem runs_partition_batch:
  assumes "\<forall>m\<in>set messages. timestamp m \<noteq> 0"
  shows "concat (groupMessagesByTimeAndSender messages) = sort_key timestamp messages
     \<and> mset (concat (groupMessagesByTimeAndSender messages)) = mset messages
     \<and> (\<forall>r\<in>set (groupMessagesByTimeAndSender messages).
           r \<noteq> [] \<and> sorted (map timestamp r) \<and> successively (\<lambda>prev m. \<not> startsNewRun prev m) r)
     \<and> successively (\<lambda>r1 r2. startsNewRun (last r1) (hd r2)) (groupMessagesByTimeAndSender messages)
     \<and> (isGroup x \<and> fromMe x \<longrightarrow> senderKey x = ''me'')
     \<and> (isGroup x \<and> \<not> fromMe x \<longrightarrow> senderKey x = ''other_'' @ fromName x)
     \<and> (\<not> isGroup x \<longrightarrow> senderKey x = from_msg x)
     \<and> (startsNewRun y x \<longleftrightarrow>
          senderKey x \<noteq> senderKey y \<or> timestamp x * 1000 - timestamp y * 1000 \<ge> 300000)"
proof -
  let ?s = "sort_key timestamp messages"
  have eq: "groupMessagesByTimeAndSender messages = runsOf ?s" by (rule groupMessages_runsOf [OF assms])
  have c: "concat (runsOf ?s) = ?s" by (rule concat_runsOf)
  have m: "mset (concat (runsOf ?s)) = mset messages" by (simp add: c)
  have srt: "sorted (map timestamp (concat (runsOf ?s)))" by (simp add: c)
  have r: "\<forall>r\<in>set (runsOf ?s). r \<noteq> [] \<and> sorted (map timestamp r) \<and> successively (\<lambda>prev m. \<not> startsNewRun prev m) r"
    using runsOf_no_empty_run [of _ ?s] sorted_concat_part [OF srt] runsOf_within [of _ ?s] by blast
  have k: "(isGroup x \<and> fromMe x \<longrightarrow> senderKey x = ''me'')
     \<and> (isGroup x \<and> \<not> fromMe x \<longrightarrow> senderKey x = ''other_'' @ fromName x)
     \<and> (\<not> isGroup x \<longrightarrow> senderKey x = from_msg x)"
    by (simp add: senderKey_def)
  show ?thesis unfolding eq using c m r runsOf_between [of ?s] k startsNewRun_senderKey [of y x] by blast
qed

text \<open>
  In the group conversation the two messages of the same named other merge into one run,
  and the owner, the other named member and the owner again each start a new one. In the
  one-to-one conversation, whose batch is not in timestamp order, the messages of the other
  party and of the owner share the sender id and merge, and the message exactly five minutes
  later starts a new run.
\<close>

theorem runs_partition_batch_witness:
  "list_all (\<lambda>m. timestamp m \<noteq> 0) groupBatch \<and> list_all (\<lambda>m. timestamp m \<noteq> 0) directBatch
   \<and> groupMessagesByTimeAndSender groupBatch
       = [[groupBatch ! 0], [groupBatch ! 1, groupBatch ! 2], [groupBatch ! 3], [groupBatch ! 4]]
   \<and> groupMessagesByTimeAndSender directBatch = [[directBatch ! 0, directBatch ! 2], [directBatch ! 1]]
   \<and> concat (groupMessagesByTimeAndSender directBatch) = sort_key timestamp directBatch
   \<and> senderKey (groupBatch ! 0) = ''me'' \<and> senderKey (groupBatch ! 1) = ''other_Siti''
   \<and> senderKey (directBatch ! 2) = ''60123456789''
   \<and> startsNewRun (directBatch ! 2) (directBatch ! 1)
   \<and> \<not> startsNewRun (directBatch ! 0) (directBatch ! 2)
   \<and> \<not> startsNewRun (groupBatch ! 1) (groupBatch ! 2)
   \<and> startsNewRun (groupBatch ! 2) (groupBatch ! 3)"
proof -
  have g0: "list_all (\<lambda>m. timestamp m \<noteq> 0) groupBatch" by (simp add: groupBatch_def groupMessage_def)
  have d0: "list_all (\<lambda>m. timestamp m \<noteq> 0) directBatch" by (simp add: directBatch_def exampleMessage_def)
  from g0 have hg: "\<forall>m\<in>set groupBatch. timestamp m \<noteq> 0" by (simp add: list_all_iff)
  from d0 have hd: "\<forall>m\<in>set directBatch. timestamp m \<noteq> 0" by (simp add: list_all_iff)
  have eg: "groupMessagesByTimeAndSender groupBatch
       = [[groupBatch ! 0], [groupBatch ! 1, groupBatch ! 2], [groupBatch ! 3], [groupBatch ! 4]]"
    by code_simp
  have ed: "groupMessagesByTimeAndSender directBatch = [[directBatch ! 0, directBatch ! 2], [directBatch ! 1]]"
    by code_simp
  have k: "senderKey (groupBatch ! 0) = ''me''" "senderKey (groupBatch ! 1) = ''other_Siti''"
    "senderKey (directBatch ! 2) = ''60123456789''"
    by (simp_all add: groupBatch_def directBatch_def groupMessage_def exampleMessage_def senderKey_def)
  have s: "startsNewRun (directBatch ! 2) (directBatch ! 1)"
    "\<not> startsNewRun (directBatch ! 0) (directBatch ! 2)"
    "\<not> startsNewRun (groupBatch ! 1) (groupBatch ! 2)"
    "startsNewRun (groupBatch ! 2) (groupBatch ! 3)"
    by (simp_all add: groupBatch_def directBatch_def groupMessage_def exampleMessage_def startsNewRun_def)
  from runs_partition_batch [OF hd]
  have c: "concat (groupMessagesByTimeAndSender directBatch) = sort_key timestamp directBatch" by blast
  from runs_partition_batch [OF hg] g0 d0 eg ed c k s show ?thesis by blast
qed

subsection \<open>The duplicate filter\<close>

lemma filterStep_grows: "set (snd fu) \<subseteq> set (snd (filterStep hist fu x))"
  by (cases fu) (auto simp: filterStep_def setAdd_def Let_def)

lemma filterStep_keeps_out:
  assumes "\<not> isOutgoingMessage a" "createActionSignature a \<in> set (snd fu)" "a \<notin> set (fst fu)"
  shows "a \<notin> set (fst (filterStep hist fu x))"
proof (cases fu)
  case (Pair filtered dups)
  with assms show ?thesis by (auto simp: filterStep_def Let_def)
qed

lemma filterLoop_keeps_out:
  assumes "\<not> isOutgoingMessage a" "createActionSignature a \<in> set (snd fu)" "a \<notin> set (fst fu)"
  shows "a \<notin> set (fst (foldl (filterStep hist) fu actions))"
  using assms(2,3)
proof (induction actions arbitrary: fu)
  case Nil
  then show ?case by simp
next
  case (Cons x xs)
  have "createActionSignature a \<in> set (snd (filterStep hist fu x))"
    using Cons.prems(1) filterStep_grows [of fu hist x] by blast
  moreover have "a \<notin> set (fst (filterStep hist fu x))"
    by (rule filterStep_keeps_out [OF assms(1) Cons.prems])
  ultimately show ?case using Cons.IH by simp
qed

lemma filterDuplicateActions_suppresses:
  assumes "\<not> isOutgoingMessage a" "duplicateTracker uid = Some sigs" "createActionSignature a \<in> set sigs"
  shows "a \<notin> set (fst (filterDuplicateActions actions uid hist duplicateTracker))"
proof (cases "foldl (filterStep hist) ([], sigs) actions")
  case (Pair filtered dups)
  with filterLoop_keeps_out [of a "([], sigs)" hist actions] assms
  show ?thesis by (simp add: filterDuplicateActions_def)
qed

lemma filter_single_accept:
  assumes "fst (filterDuplicateActions [a] uid hist T) = [a]"
  shows "\<exists>sigs. snd (filterDuplicateActions [a] uid hist T) uid = Some sigs \<and> createActionSignature a \<in> set sigs"
  using assms
  by (auto simp: filterDuplicateActions_def filterStep_def setAdd_def Let_def split: option.splits if_splits)

lemma filter_single_cases: "fst (filterDuplicateActions [b] uid hist T) \<in> {[], [b]}"
  by (auto simp: filterDuplicateActions_def filterStep_def Let_def split: option.splits)

lemma descWords_props:
  "sorted (descWords d) \<and> length (descWords d) \<le> 3
   \<and> mset (descWords d) = mset (take 3 (filter (\<lambda>word. length word > 2)
        (split_sp (filter (\<lambda>c. is_word_char c \<or> is_space c) (toLowerCase d)))))"
  by (simp add: descWords_def)

text \<open>
  The sender class of a candidate is read from its \<open>originalMessage\<close>. An action that
  carries one from the owner is always accepted; a candidate that carries none never
  matches a stored entry, whose \<open>originalMessage\<close> is always present.
\<close>

lemma outgoing_always_accepted:
  "isOutgoingMessage a \<Longrightarrow> fst (filterStep hist (filtered, dups) a) = filtered @ [a]"
  by (simp add: filterStep_def)

lemma similarLoop_iff:
  "similarLoop a hs \<longleftrightarrow>
     (\<exists>h\<in>set hs. h_type h = type a \<and> fromMeOf (originalMessage a) = fromMeOf (h_originalMessage h)
        \<and> js_gt (calculateStringSimilarity (toLowerCase (description a)) (toLowerCase (h_description h))) (8 / 10))"
  by (induction hs) (auto simp: DUPLICATE_SIMILARITY_THRESHOLD_def)

lemma candidate_never_similar:
  assumes "originalMessage a = None" "\<forall>h\<in>set hist. h_originalMessage h \<noteq> None"
  shows "\<not> isSimilarToConversationHistory a hist"
proof -
  have "\<forall>h\<in>set (take 5 hist). h_originalMessage h \<noteq> None" using assms(2) by (meson in_set_takeD)
  then show ?thesis using assms(1)
    by (auto simp: isSimilarToConversationHistory_def similarLoop_iff fromMeOf_def)
qed

lemma fallback_candidates_carry_no_message:
  "a \<in> set (fallbackProcessing now m) \<Longrightarrow> originalMessage a = None"
proof -
  assume a: "a \<in> set (fallbackProcessing now m)"
  have all: "\<forall>x\<in>set (fallbackCandidates now m). originalMessage x = None"
    by (auto simp: fallbackCandidates_def Let_def reminderCandidate_def longNoteCandidate_def
        keywordCandidates_def candidate_def)
  from a have "reduceBest (fallbackCandidates now m) = Some a"
    by (cases "reduceBest (fallbackCandidates now m)") (simp_all add: fallbackProcessing_def)
  then have "a \<in> set (fallbackCandidates now m)"
    using foldl_better_mem by (cases "fallbackCandidates now m") auto
  with all show ?thesis by simp
qed

text \<open>
  C5: the code suppresses the second action. Two messages of the owner with the same
  wording are classified (by the fallback, the request having failed) into the same
  reminder. The candidates come out of the classifier without \<open>originalMessage\<close>, which
  \<open>saveAndEmitAction\<close> attaches only later, so \<open>filterDuplicateActions\<close> takes the
  branch for incoming messages: the first action is stored and announced, the second is
  filtered out as an exact duplicate and nothing is stored for it.
\<close>

theorem owner_duplicate_suppressed_in_pipeline:
  "fromMe ownerFirst \<and> fromMe ownerSecond
   \<and> createActionSignature (reminderCandidate (e_now (exampleEnv True)) ownerFirst)
       = createActionSignature (reminderCandidate (e_now (exampleEnv True)) ownerSecond)
   \<and> fst (snd (processMessageGroup (exampleEnv True) Map.empty [ownerFirst] 7 ''60123456789'' [] None))
       = [Classified ownerFirst,
          Persisted 7 (reminderCandidate (e_now (exampleEnv True)) ownerFirst) ownerFirst,
          PushRequested 7
            ((reminderCandidate (e_now (exampleEnv True)) ownerFirst)\<lparr> originalMessage := Some ownerFirst \<rparr>),
          Emitted 7 (reminderCandidate (e_now (exampleEnv True)) ownerFirst) ownerFirst,
          HistoryUpdated 7 ''60123456789'' [reminderCandidate (e_now (exampleEnv True)) ownerFirst]]
   \<and> fst (snd (processMessageGroup (exampleEnv True)
         (fst (processMessageGroup (exampleEnv True) Map.empty [ownerFirst] 7 ''60123456789'' [] None))
         [ownerSecond] 7 ''60123456789'' [] None))
       = [Classified ownerSecond, HistoryUpdated 7 ''60123456789'' []]"
  by code_simp

text \<open>
  C6. A candidate that is not treated as outgoing and whose signature is already in the
  user's signature set is suppressed, whatever else the list holds; so of two such
  candidates with the same signature, filtered one after the other, the second is
  suppressed once the first was accepted. The signature is the type, a hyphen, and the
  hyphen-joined words of the description chosen as follows: lower-case it, delete what is
  neither a word character nor white space, split at spaces, keep the words longer than
  two characters, take the first three and sort them.
\<close>

theorem exact_duplicate_suppressed:
  "(\<not> isOutgoingMessage a \<and> duplicateTracker uid = Some sigs \<and> createActionSignature a \<in> set sigs
      \<longrightarrow> a \<notin> set (fst (filterDuplicateActions actions uid hist duplicateTracker)))
   \<and> (\<not> isOutgoingMessage b \<and> createActionSignature b = createActionSignature a
        \<and> fst (filterDuplicateActions [a] uid hist T) = [a]
      \<longrightarrow> fst (filterDuplicateActions [b] uid hist' (snd (filterDuplicateActions [a] uid hist T))) = [])
   \<and> createActionSignature a = type a @ ''-'' @ join ''-'' (descWords (description a))
   \<and> sorted (descWords d) \<and> length (descWords d) \<le> 3
   \<and> mset (descWords d) = mset (take 3 (filter (\<lambda>word. length word > 2)
        (split_sp (filter (\<lambda>c. is_word_char c \<or> is_space c) (toLowerCase d)))))"
proof -
  have p1: "\<not> isOutgoingMessage a \<and> duplicateTracker uid = Some sigs \<and> createActionSignature a \<in> set sigs
      \<longrightarrow> a \<notin> set (fst (filterDuplicateActions actions uid hist duplicateTracker))"
    using filterDuplicateActions_suppresses by blast
  have p2: "\<not> isOutgoingMessage b \<and> createActionSignature b = createActionSignature a
        \<and> fst (filterDuplicateActions [a] uid hist T) = [a]
      \<longrightarrow> fst (filterDuplicateActions [b] uid hist' (snd (filterDuplicateActions [a] uid hist T))) = []"
  proof
    assume h: "\<not> isOutgoingMessage b \<and> createActionSignature b = createActionSignature a
        \<and> fst (filterDuplicateActions [a] uid hist T) = [a]"
    let ?T1 = "snd (filterDuplicateActions [a] uid hist T)"
    from h filter_single_accept [of a uid hist T]
    obtain sigs' where s: "?T1 uid = Some sigs'" "createActionSignature b \<in> set sigs'" by auto
    from h have nb: "\<not> isOutgoingMessage b" by simp
    have "b \<notin> set (fst (filterDuplicateActions [b] uid hist' ?T1))"
      using filterDuplicateActions_suppresses [of b ?T1 uid sigs' "[b]" hist'] nb s by simp
    with filter_single_cases [of b uid hist' ?T1]
    show "fst (filterDuplicateActions [b] uid hist' ?T1) = []" by auto
  qed
  have p3: "createActionSignature a = type a @ ''-'' @ join ''-'' (descWords (description a))"
    by (simp add: createActionSignature_def)
  from p1 p2 p3 descWords_props [of d] show ?thesis by blast
qed

text \<open>
  The reminder of the fallback for a message of the other party, when its signature is
  already in the set of user 7; and the same reminder filtered on an empty set, where it
  is accepted, followed by a reminder worded differently with the same signature, which
  is suppressed.
\<close>

theorem exact_duplicate_suppressed_witness:
  "\<not> isOutgoingMessage (reminderCandidate 0 incomingRemind)
   \<and> [(7 :: userId) \<mapsto> [''reminder-reminder-scheduling-timebased'']] 7 = Some [''reminder-reminder-scheduling-timebased'']
   \<and> createActionSignature (reminderCandidate 0 incomingRemind) = ''reminder-reminder-scheduling-timebased''
   \<and> reminderCandidate 0 incomingRemind \<notin> set (fst (filterDuplicateActions [reminderCandidate 0 incomingRemind] 7 []
         [7 \<mapsto> [''reminder-reminder-scheduling-timebased'']]))
   \<and> descWords ''Time-based reminder or scheduling needed'' = [''reminder'', ''scheduling'', ''timebased'']
   \<and> \<not> isOutgoingMessage rewordedReminder
   \<and> description rewordedReminder \<noteq> description (reminderCandidate 0 incomingRemind)
   \<and> createActionSignature rewordedReminder = createActionSignature (reminderCandidate 0 incomingRemind)
   \<and> fst (filterDuplicateActions [reminderCandidate 0 incomingRemind] 7 [] Map.empty)
       = [reminderCandidate 0 incomingRemind]
   \<and> fst (filterDuplicateActions [rewordedReminder] 7 []
           (snd (filterDuplicateActions [reminderCandidate 0 incomingRemind] 7 [] Map.empty))) = []"
proof -
  have h1: "\<not> isOutgoingMessage (reminderCandidate 0 incomingRemind)" by code_simp
  have h2: "createActionSignature (reminderCandidate 0 incomingRemind) = ''reminder-reminder-scheduling-timebased''"
    by code_simp
  have h3: "descWords ''Time-based reminder or scheduling needed'' = [''reminder'', ''scheduling'', ''timebased'']"
    by code_simp
  have h0: "[7 \<mapsto> [''reminder-reminder-scheduling-timebased'']] (7 :: userId)
      = Some [''reminder-reminder-scheduling-timebased'']" by simp
  from exact_duplicate_suppressed [of "reminderCandidate 0 incomingRemind"
      "[7 \<mapsto> [''reminder-reminder-scheduling-timebased'']]" 7 "[''reminder-reminder-scheduling-timebased'']"
      "[reminderCandidate 0 incomingRemind]" "[]"]
  have t: "\<not> isOutgoingMessage (reminderCandidate 0 incomingRemind)
      \<and> [(7 :: userId) \<mapsto> [''reminder-reminder-scheduling-timebased'']] 7 = Some [''reminder-reminder-scheduling-timebased'']
      \<and> createActionSignature (reminderCandidate 0 incomingRemind) \<in> set [''reminder-reminder-scheduling-timebased'']
      \<longrightarrow> reminderCandidate 0 incomingRemind \<notin> set (fst (filterDuplicateActions [reminderCandidate 0 incomingRemind] 7 []
         [7 \<mapsto> [''reminder-reminder-scheduling-timebased'']]))"
    by (rule conjunct1)
  have m: "createActionSignature (reminderCandidate 0 incomingRemind) \<in> set [''reminder-reminder-scheduling-timebased'']"
    by (simp only: h2 list.set insertI1)
  from t h1 h0 m
  have first: "reminderCandidate 0 incomingRemind \<notin> set (fst (filterDuplicateActions [reminderCandidate 0 incomingRemind] 7 []
         [7 \<mapsto> [''reminder-reminder-scheduling-timebased'']]))" by blast
  have k1: "\<not> isOutgoingMessage rewordedReminder" by code_simp
  have k2: "description rewordedReminder \<noteq> description (reminderCandidate 0 incomingRemind)" by code_simp
  have k3: "createActionSignature rewordedReminder = createActionSignature (reminderCandidate 0 incomingRemind)"
    by code_simp
  have k4: "fst (filterDuplicateActions [reminderCandidate 0 incomingRemind] 7 [] Map.empty)
       = [reminderCandidate 0 incomingRemind]"
    by code_simp
  from exact_duplicate_suppressed [where a = "reminderCandidate 0 incomingRemind" and b = rewordedReminder
      and uid = 7 and hist = "[]" and hist' = "[]" and T = Map.empty] k1 k3 k4
  have second: "fst (filterDuplicateActions [rewordedReminder] 7 []
           (snd (filterDuplicateActions [reminderCandidate 0 incomingRemind] 7 [] Map.empty))) = []"
    by blast
  from h1 h0 h2 h3 first k1 k2 k3 k4 second show ?thesis by blast
qed

text \<open>
  C7: the code does not suppress. In a group conversation a message of another member is
  classified (by the fallback) into a reminder; the history of that sender holds, among its
  five most recent entries, a reminder with the very same description, stored for a
  message of that member too, so the Jaccard similarity is 1. The candidate carries no
  \<open>originalMessage\<close> when it is filtered: its sender class is \<open>undefined\<close>, which
  equals neither \<open>true\<close> nor \<open>false\<close>, the similarity is never compared and the
  action is stored and announced.
\<close>

theorem similar_history_not_suppressed_in_pipeline:
  "fromMe incomingGroupRemind = False
   \<and> h_type storedReminder = type (reminderCandidate (e_now (exampleEnv True)) incomingGroupRemind)
   \<and> fromMeOf (h_originalMessage storedReminder) = Some False
   \<and> fromMeOf (originalMessage (reminderCandidate (e_now (exampleEnv True)) incomingGroupRemind)) = None
   \<and> calculateStringSimilarity
        (toLowerCase (description (reminderCandidate (e_now (exampleEnv True)) incomingGroupRemind)))
        (toLowerCase (h_description storedReminder)) = Finite 1
   \<and> \<not> isSimilarToConversationHistory (reminderCandidate (e_now (exampleEnv True)) incomingGroupRemind)
         [storedReminder]
   \<and> fst (snd (processMessageGroup (exampleEnv True) Map.empty [incomingGroupRemind] 7 ''Team''
         [storedReminder] (Some (loadGroupTopicContext reminderRows))))
       = [Classified incomingGroupRemind,
          Persisted 7 (reminderCandidate (e_now (exampleEnv True)) incomingGroupRemind) incomingGroupRemind,
          PushRequested 7
            ((reminderCandidate (e_now (exampleEnv True)) incomingGroupRemind)
               \<lparr> originalMessage := Some incomingGroupRemind \<rparr>),
          Emitted 7 (reminderCandidate (e_now (exampleEnv True)) incomingGroupRemind) incomingGroupRemind,
          HistoryUpdated 7 ''Team'' [reminderCandidate (e_now (exampleEnv True)) incomingGroupRemind],
          TopicTrackerUpdated ''Team'' 7 [reminderCandidate (e_now (exampleEnv True)) incomingGroupRemind]]"
  by code_simp

subsection \<open>Keyword overlap and group topics\<close>

lemma js_div_unit:
  assumes "i \<le> u" and "0 < u"
  shows "\<exists>r. js_div i u = Finite r \<and> 0 \<le> r \<and> r \<le> 1"
proof -
  have "(of_nat i :: rat) \<le> of_nat u" using assms(1) by simp
  moreover have "(0 :: rat) < of_nat u" using assms(2) by simp
  ultimately have "(of_nat i :: rat) / of_nat u \<le> 1" by (simp add: divide_le_eq)
  moreover have "(0 :: rat) \<le> of_nat i / of_nat u" by simp
  ultimately show ?thesis using assms(2) by (simp add: js_div_def)
qed

lemma inter_le_union:
  "length (filter (\<lambda>x. x \<in> set (remdups ys)) (remdups xs)) \<le> length (remdups (remdups xs @ remdups ys))"
proof -
  have "distinct (filter (\<lambda>x. x \<in> set (remdups ys)) (remdups xs))" by simp
  then have "length (filter (\<lambda>x. x \<in> set (remdups ys)) (remdups xs))
      = card (set (filter (\<lambda>x. x \<in> set (remdups ys)) (remdups xs)))"
    by (simp only: distinct_card)
  also have "\<dots> \<le> card (set (remdups (remdups xs @ remdups ys)))"
    by (rule card_mono) auto
  also have "\<dots> = length (remdups (remdups xs @ remdups ys))"
    by (simp only: distinct_card distinct_remdups)
  finally show ?thesis .
qed

lemma union_pos: "xs \<noteq> [] \<Longrightarrow> 0 < length (remdups (remdups xs @ remdups ys))"
  by (cases xs) auto

lemma overlap_unit:
  "\<exists>r. calculateKeywordOverlap k1 k2 = Finite r \<and> 0 \<le> r \<and> r \<le> 1"
proof (cases "k1 = [] \<or> k2 = []")
  case True
  then show ?thesis by (auto simp: calculateKeywordOverlap_def)
next
  case False
  then have "calculateKeywordOverlap k1 k2
      = js_div (length (filter (\<lambda>x. x \<in> set (remdups k2)) (remdups k1)))
               (length (remdups (remdups k1 @ remdups k2)))"
    by (simp add: calculateKeywordOverlap_def Let_def)
  moreover from False have "0 < length (remdups (remdups k1 @ remdups k2))" by (simp add: union_pos)
  ultimately show ?thesis using js_div_unit [OF inter_le_union] by simp
qed

lemma topicLoop_no_keywords: "\<not> topicLoop now [] uid ctx"
  by (induction ctx) (simp_all add: calculateKeywordOverlap_def GROUP_TOPIC_SIMILARITY_THRESHOLD_def)

text \<open>
  C10. \<open>calculateKeywordOverlap\<close> returns, for every pair of keyword lists, a finite
  number between 0 and 1 (never \<open>NaN\<close> nor \<open>Infinity\<close>: the division is reached only
  with a non-empty union), and exactly 0 when either list is empty. So a message whose body
  yields no keyword is never a group-topic duplicate.
\<close>

theorem keyword_overlap_total_and_safe:
  "(\<exists>r. calculateKeywordOverlap k1 k2 = Finite r \<and> 0 \<le> r \<and> r \<le> 1)
   \<and> (k1 = [] \<or> k2 = [] \<longrightarrow> calculateKeywordOverlap k1 k2 = Finite 0)
   \<and> (extractTopicKeywords (body m) = [] \<longrightarrow> \<not> checkGroupTopicDuplicate now m ctx uid)"
  using overlap_unit [of k1 k2]
  by (auto simp: calculateKeywordOverlap_def checkGroupTopicDuplicate_def topicLoop_no_keywords)

text \<open>
  A body of stop words and short tokens, against a context whose only topic shares nothing
  with it.
\<close>

theorem keyword_overlap_total_and_safe_witness:
  "extractTopicKeywords (body quietGroupMessage) = []
   \<and> \<not> checkGroupTopicDuplicate 1700000100000 quietGroupMessage (loadGroupTopicContext teamRows) 7
   \<and> calculateKeywordOverlap [] [''sales'', ''report''] = Finite 0
   \<and> calculateKeywordOverlap [''sales'', ''report''] [''sales'', ''figures''] = Finite (1 / 3)"
proof -
  have h: "extractTopicKeywords (body quietGroupMessage) = []" by code_simp
  have e: "calculateKeywordOverlap [''sales'', ''report''] [''sales'', ''figures''] = Finite (1 / 3)"
    by code_simp
  from keyword_overlap_total_and_safe [of "[]" "[''sales'', ''report'']" quietGroupMessage
      1700000100000 "loadGroupTopicContext teamRows" 7] h e
  show ?thesis by blast
qed

lemma hours_lt: "((of_int d :: rat) / (1000 * 60 * 60) < 2) \<longleftrightarrow> d < 2 * 60 * 60 * 1000"
proof -
  have "((of_int d :: rat) / (1000 * 60 * 60) < 2) \<longleftrightarrow> (of_int d :: rat) < 2 * (1000 * 60 * 60)"
    by (simp add: divide_less_eq)
  also have "\<dots> \<longleftrightarrow> (of_int d :: rat) < of_int (2 * 60 * 60 * 1000)" by simp
  also have "\<dots> \<longleftrightarrow> d < 2 * 60 * 60 * 1000" by (simp only: of_int_less_iff)
  finally show ?thesis .
qed

lemma topicLoop_iff: "topicLoop now kws uid ctx \<longleftrightarrow> (\<exists>t\<in>set ctx. topicMatches now kws uid t)"
  by (induction ctx) (auto simp: topicMatches_def GROUP_TOPIC_SIMILARITY_THRESHOLD_def hours_lt)

lemma setAdd_distinct: "distinct xs \<Longrightarrow> distinct (setAdd x xs)"
  by (simp add: setAdd_def)

lemma upsertTopic_distinct:
  "list_all (\<lambda>kt. distinct (users (snd kt))) tm \<Longrightarrow>
   list_all (\<lambda>kt. distinct (users (snd kt))) (upsertTopic k row tm)"
  by (induction tm) (auto simp: setAdd_distinct)

lemma foldl_upsert_distinct:
  "list_all (\<lambda>kt. distinct (users (snd kt))) tm \<Longrightarrow>
   list_all (\<lambda>kt. distinct (users (snd kt)))
     (foldl (\<lambda>topicMap row. upsertTopic (topicKeyOf row) row topicMap) tm rows)"
  by (induction rows arbitrary: tm) (simp_all add: upsertTopic_distinct)

lemma loadGroupTopicContext_distinct:
  "t \<in> set (loadGroupTopicContext rows) \<Longrightarrow> distinct (users t)"
  using foldl_upsert_distinct [of "[]" rows]
  by (auto simp: loadGroupTopicContext_def list_all_iff)

lemma topic_duplicate_skips_group:
  assumes "createCombinedMessage e messageGroup = Some cm" "isGroup cm"
    and "checkGroupTopicDuplicate (e_now e) cm ctx uid"
  shows "processMessageGroup e T messageGroup uid cid hist (Some ctx) = (T, [], Resolved)"
  using assms by (simp add: processMessageGroup_def)

text \<open>
  C8. For a combined message and the topic context loaded from the stored rows,
  \<open>checkGroupTopicDuplicate\<close> answers true if and only if some topic's description has a
  keyword overlap with the message body above 0.7 and either the acting user is among the
  topic's users, or the topic has at least two distinct users and at least two actions and
  its last update is less than two hours old. When the combined message belongs to a group
  conversation and the answer is true, \<open>processMessageGroup\<close> returns at once: no
  classification request, no other effect, the signature set unchanged.
\<close>

theorem group_topic_duplicate_iff:
  "(checkGroupTopicDuplicate now m (loadGroupTopicContext rows) uid \<longleftrightarrow>
      (\<exists>t\<in>set (loadGroupTopicContext rows).
          js_gt (calculateKeywordOverlap (extractTopicKeywords (body m))
                   (extractTopicKeywords (t_description t))) (7 / 10)
          \<and> (uid \<in> set (users t)
             \<or> (card (set (users t)) \<ge> 2 \<and> length (t_actions t) \<ge> 2
                \<and> now - lastUpdate t < 2 * 60 * 60 * 1000))))
   \<and> (createCombinedMessage e messageGroup = Some cm \<and> isGroup cm
        \<and> checkGroupTopicDuplicate (e_now e) cm (loadGroupTopicContext rows) uid
      \<longrightarrow> processMessageGroup e T messageGroup uid cid hist (Some (loadGroupTopicContext rows))
            = (T, [], Resolved))"
proof -
  have "checkGroupTopicDuplicate now m (loadGroupTopicContext rows) uid \<longleftrightarrow>
      (\<exists>t\<in>set (loadGroupTopicContext rows). topicMatches now (extractTopicKeywords (body m)) uid t)"
    by (simp add: checkGroupTopicDuplicate_def topicLoop_iff)
  also have "\<dots> \<longleftrightarrow> (\<exists>t\<in>set (loadGroupTopicContext rows).
          js_gt (calculateKeywordOverlap (extractTopicKeywords (body m))
                   (extractTopicKeywords (t_description t))) (7 / 10)
          \<and> (uid \<in> set (users t)
             \<or> (card (set (users t)) \<ge> 2 \<and> length (t_actions t) \<ge> 2
                \<and> now - lastUpdate t < 2 * 60 * 60 * 1000)))"
    using loadGroupTopicContext_distinct [of _ rows]
    by (auto simp: topicMatches_def distinct_card)
  finally show ?thesis using topic_duplicate_skips_group by blast
qed

text \<open>
  User 7 has a stored task about the quarterly sales report in the group; a message
  with the same keywords, processed for user 7, is a duplicate and the group is skipped.
\<close>

theorem group_topic_duplicate_iff_witness:
  "createCombinedMessage (exampleEnv True) [reportGroupMessage] = Some reportGroupMessage
   \<and> isGroup reportGroupMessage
   \<and> checkGroupTopicDuplicate (e_now (exampleEnv True)) reportGroupMessage (loadGroupTopicContext teamRows) 7
   \<and> snd (processMessageGroup (exampleEnv True) Map.empty [reportGroupMessage] 7 ''Team'' []
        (Some (loadGroupTopicContext teamRows))) = ([], Resolved)"
proof -
  have h1: "createCombinedMessage (exampleEnv True) [reportGroupMessage] = Some reportGroupMessage"
    by (simp add: createCombinedMessage_def)
  have h2: "isGroup reportGroupMessage" by (simp add: reportGroupMessage_def groupMessage_def)
  have h3: "checkGroupTopicDuplicate (e_now (exampleEnv True)) reportGroupMessage (loadGroupTopicContext teamRows) 7"
    by code_simp
  from group_topic_duplicate_iff [of _ _ teamRows 7 "exampleEnv True" "[reportGroupMessage]"
      reportGroupMessage Map.empty "''Team''" "[]"] h1 h2 h3
  have "processMessageGroup (exampleEnv True) Map.empty [reportGroupMessage] 7 ''Team'' []
        (Some (loadGroupTopicContext teamRows)) = (Map.empty, [], Resolved)" by blast
  with h1 h2 h3 show ?thesis by simp
qed

subsection \<open>saveAndEmitAction\<close>

lemma map_filter_app: "List.map_filter f (xs @ ys) = List.map_filter f xs @ List.map_filter f ys"
  by (simp add: List.map_filter_def)

lemma stages_push: "List.map_filter stage (sendActionNotification e a uid) \<in> {[], [1]}"
  by (auto simp: sendActionNotification_def split: player_lookup.splits)

lemma saveAndEmit_resolves: "snd (saveAndEmitAction e a m uid) = Resolved"
  by (simp add: saveAndEmitAction_def saveAndEmitTry_def Let_def)

lemma saveAndEmit_failed:
  "dbAvailable e \<Longrightarrow> \<not> insertResolves e a m uid \<Longrightarrow>
   fst (saveAndEmitAction e a m uid) = [Logged ''INSERT INTO ai_actions failed'']"
  by (simp add: saveAndEmitAction_def saveAndEmitTry_def Let_def)

lemma saveAndEmit_order:
  "sorted_wrt (<) (List.map_filter stage (fst (saveAndEmitAction e a m uid)))"
proof -
  have "List.map_filter stage (sendActionNotification e (a\<lparr>originalMessage := Some m\<rparr>) uid) \<in> {[], [1]}"
    by (rule stages_push)
  then show ?thesis
    by (auto simp: saveAndEmitAction_def saveAndEmitTry_def Let_def List.map_filter_simps map_filter_app)
qed

lemma saveAll_continues:
  "saveAll e m uid (a # rest)
     = (fst (saveAndEmitAction e a m uid) @ fst (saveAll e m uid rest), snd (saveAll e m uid rest))"
proof -
  obtain effs where "saveAndEmitAction e a m uid = (effs, Resolved)"
    using saveAndEmit_resolves [of e a m uid] by (cases "saveAndEmitAction e a m uid") simp
  then show ?thesis by (simp split: prod.splits)
qed

text \<open>
  The \<open>INSERT\<close> fails. \<open>saveAndEmitAction\<close> writes the error to the console and
  resolves: its caller is not told. \<open>processMessageGroup\<close> goes on as after a success:
  it records the action in the conversation history and resolves too.
\<close>

theorem persist_failure_not_surfaced:
  "dbAvailable (exampleEnv False)
   \<and> \<not> insertResolves (exampleEnv False) (reminderCandidate (e_now (exampleEnv False)) incomingRemind)
         incomingRemind 7
   \<and> saveAndEmitAction (exampleEnv False) (reminderCandidate (e_now (exampleEnv False)) incomingRemind)
         incomingRemind 7 = ([Logged ''INSERT INTO ai_actions failed''], Resolved)
   \<and> snd (processMessageGroup (exampleEnv False) Map.empty [incomingRemind] 7 ''60123456789'' [] None)
       = ([Classified incomingRemind, Logged ''INSERT INTO ai_actions failed'',
           HistoryUpdated 7 ''60123456789'' [reminderCandidate (e_now (exampleEnv False)) incomingRemind]],
          Resolved)"
  by code_simp

text \<open>
  C9, amended. When persisting an accepted action fails, no push notification is requested
  and no live event is emitted for that action; the error is caught inside
  \<open>saveAndEmitAction\<close>, written to the console there, and not surfaced: the call always
  resolves, and the calling loop goes on with the next action as after a success. The side
  effects, when they occur, happen in the order persist, push notification, live event.
\<close>

theorem saveAndEmitAction_effects:
  "snd (saveAndEmitAction e a m uid) = Resolved
   \<and> (dbAvailable e \<and> \<not> insertResolves e a m uid \<longrightarrow>
        fst (saveAndEmitAction e a m uid) = [Logged ''INSERT INTO ai_actions failed''])
   \<and> sorted_wrt (<) (List.map_filter stage (fst (saveAndEmitAction e a m uid)))
   \<and> saveAll e m uid (a # rest)
       = (fst (saveAndEmitAction e a m uid) @ fst (saveAll e m uid rest), snd (saveAll e m uid rest))"
  using saveAndEmit_resolves [of e a m uid] saveAndEmit_failed [of e a m uid]
    saveAndEmit_order [of e a m uid] saveAll_continues [of e m uid a rest]
  by blast

theorem saveAndEmitAction_effects_witness:
  "dbAvailable (exampleEnv False)
   \<and> \<not> insertResolves (exampleEnv False) (exampleCandidate ''task'' (9 / 10)) incomingRemind 7
   \<and> fst (saveAndEmitAction (exampleEnv False) (exampleCandidate ''task'' (9 / 10)) incomingRemind 7)
       = [Logged ''INSERT INTO ai_actions failed'']
   \<and> List.map_filter stage
        (fst (saveAndEmitAction (exampleEnv True) (exampleCandidate ''task'' (9 / 10)) incomingRemind 7))
       = [0, 1, 2]"
proof -
  have h1: "dbAvailable (exampleEnv False)" by (simp add: exampleEnv_def)
  have h2: "\<not> insertResolves (exampleEnv False) (exampleCandidate ''task'' (9 / 10)) incomingRemind 7"
    by (simp add: exampleEnv_def)
  have h3: "List.map_filter stage
        (fst (saveAndEmitAction (exampleEnv True) (exampleCandidate ''task'' (9 / 10)) incomingRemind 7))
       = [0, 1, 2]"
    by (simp add: saveAndEmitAction_def saveAndEmitTry_def sendActionNotification_def exampleEnv_def
        List.map_filter_simps)
  from saveAndEmitAction_effects [of "exampleEnv False" "exampleCandidate ''task'' (9 / 10)" incomingRemind 7]
    h1 h2 h3
  show ?thesis by blast
qed

end
